theory Spec2Isabelle
  imports Complex_Main "HOL-Library.Product_Lexorder" "HOL-Library.Multiset"
begin

section \<open>Numbers, sides and rows\<close>

text \<open>
  A Python float is an IEEE 754 double: a finite number, an infinity or NaN. (The sign of a
  zero is not kept: the program neither prints nor divides by a zero.)
\<close>

datatype fl = NaN | NInf | Fin rat | PInf

text \<open>
  Every arithmetic operation on finite doubles gives the double nearest to the exact result,
  or an infinity on overflow. That rounding is the parameter \<open>rd\<close> of the functions below;
  nothing is assumed of it. \<open>unrounded\<close> is the rounding that leaves every number as it is:
  it is the actual one wherever the exact results are doubles, as in the concrete runs of
  this theory (small integers and halves).
\<close>

type_synonym rounding = "rat \<Rightarrow> fl"

definition unrounded :: rounding where
  "unrounded x = Fin x"

fun is_nan :: "fl \<Rightarrow> bool" where
  "is_nan NaN = True"
| "is_nan x = False"

text \<open>The place of a value that is not NaN in the order of the doubles.\<close>

fun key_of :: "fl \<Rightarrow> int \<times> rat" where
  "key_of NInf = (- 1, 0)"
| "key_of (Fin x) = (0, x)"
| "key_of PInf = (1, 0)"
| "key_of NaN = (2, 0)"

text \<open>\<^verbatim>\<open>a < b\<close>, \<^verbatim>\<open>a <= b\<close> and \<^verbatim>\<open>a == b\<close>: all false when one side is NaN.\<close>

definition flt :: "fl \<Rightarrow> fl \<Rightarrow> bool" where
  "flt a b \<longleftrightarrow> \<not> is_nan a \<and> \<not> is_nan b \<and> key_of a < key_of b"

definition fle :: "fl \<Rightarrow> fl \<Rightarrow> bool" where
  "fle a b \<longleftrightarrow> \<not> is_nan a \<and> \<not> is_nan b \<and> key_of a \<le> key_of b"

definition feq :: "fl \<Rightarrow> fl \<Rightarrow> bool" where
  "feq a b \<longleftrightarrow> \<not> is_nan a \<and> \<not> is_nan b \<and> a = b"

text \<open>\<^verbatim>\<open>-a\<close> and \<^verbatim>\<open>abs(a)\<close> are exact.\<close>

fun fneg :: "fl \<Rightarrow> fl" where
  "fneg NaN = NaN"
| "fneg NInf = PInf"
| "fneg (Fin x) = Fin (- x)"
| "fneg PInf = NInf"

fun fabs :: "fl \<Rightarrow> fl" where
  "fabs NaN = NaN"
| "fabs NInf = PInf"
| "fabs (Fin x) = Fin \<bar>x\<bar>"
| "fabs PInf = PInf"

text \<open>\<^verbatim>\<open>a + b\<close>: adding a zero changes nothing, opposite infinities give NaN.\<close>

fun fadd :: "rounding \<Rightarrow> fl \<Rightarrow> fl \<Rightarrow> fl" where
  "fadd rd (Fin a) (Fin b) = (if a = 0 then Fin b else if b = 0 then Fin a else rd (a + b))"
| "fadd rd NaN b = NaN"
| "fadd rd a NaN = NaN"
| "fadd rd PInf NInf = NaN"
| "fadd rd NInf PInf = NaN"
| "fadd rd PInf b = PInf"
| "fadd rd a PInf = PInf"
| "fadd rd NInf b = NInf"
| "fadd rd a NInf = NInf"

definition fsub :: "rounding \<Rightarrow> fl \<Rightarrow> fl \<Rightarrow> fl" where
  "fsub rd a b = fadd rd a (fneg b)"

text \<open>\<^verbatim>\<open>a * b\<close>: an infinity times zero is NaN, else the sign decides.\<close>

fun fmul :: "rounding \<Rightarrow> fl \<Rightarrow> fl \<Rightarrow> fl" where
  "fmul rd (Fin a) (Fin b) = rd (a * b)"
| "fmul rd NaN b = NaN"
| "fmul rd a NaN = NaN"
| "fmul rd (Fin a) b = (if a = 0 then NaN else if 0 < a then b else fneg b)"
| "fmul rd a (Fin b) = (if b = 0 then NaN else if 0 < b then a else fneg a)"
| "fmul rd PInf b = b"
| "fmul rd NInf b = fneg b"

text \<open>
  \<^verbatim>\<open>a / b\<close> for a divisor that is not zero (Python raises \<^verbatim>\<open>ZeroDivisionError\<close> on a zero
  divisor before it divides): two infinities give NaN, a finite number over an infinity is
  zero.
\<close>

fun fdiv :: "rounding \<Rightarrow> fl \<Rightarrow> fl \<Rightarrow> fl" where
  "fdiv rd (Fin a) (Fin b) = rd (a / b)"
| "fdiv rd NaN b = NaN"
| "fdiv rd a NaN = NaN"
| "fdiv rd (Fin a) b = Fin 0"
| "fdiv rd a (Fin b) = (if 0 < b then a else fneg a)"
| "fdiv rd a b = NaN"

datatype error =
  TypeError | AttributeError | KeyError | ValueError | ZeroDivisionError | OverflowError
  | RuntimeError | RequestException

definition py_div :: "rounding \<Rightarrow> fl \<Rightarrow> fl \<Rightarrow> error + fl" where
  "py_div rd a b = (if feq b (Fin 0) then Inl ZeroDivisionError else Inr (fdiv rd a b))"

text \<open>
  The surge detector is modelled on finite numbers computed exactly.
\<close>

type_synonym num = rat

text \<open>
  Python's \<^verbatim>\<open>round(x, n)\<close>: the nearest multiple of \<open>10^-n\<close>, an exact tie going to the
  even neighbour.
\<close>

definition py_round :: "nat \<Rightarrow> num \<Rightarrow> num" where
  "py_round n x =
     (let s = 10 ^ n; y = x * s; f = \<lfloor>y\<rfloor>; d = y - of_int f
      in of_int (if d < 1 / 2 then f else if 1 / 2 < d then f + 1
                 else if even f then f else f + 1) / s)"

text \<open>
  \<^verbatim>\<open>round(x, n)\<close> on a float: the decimal rounding of the exact value of \<open>x\<close>, read back as
  a double. NaN and the infinities come back as they are.
\<close>

fun fround :: "rounding \<Rightarrow> nat \<Rightarrow> fl \<Rightarrow> fl" where
  "fround rd n (Fin x) = rd (py_round n x)"
| "fround rd n x = x"

datatype side = CE | PE

text \<open>
  A parsed JSON document, as \<^verbatim>\<open>r.json()\<close> returns it; a dict is kept as its list of items.
  A number is a Python \<^verbatim>\<open>int\<close> or a \<^verbatim>\<open>float\<close>; the literals \<^verbatim>\<open>NaN\<close>, \<^verbatim>\<open>Infinity\<close> and
  \<^verbatim>\<open>1e999\<close> are floats that are not finite.
\<close>

datatype json =
  JNull | JBool bool | JInt int | JFloat fl | JStr string | JArr "json list"
  | JObj "(string \<times> json) list"

text \<open>
  A row as \<^verbatim>\<open>parse_rows\<close> builds it (a dict with these ten keys). Every numeric field went
  through \<^verbatim>\<open>safe_float\<close> and may be \<^verbatim>\<open>None\<close>; the symbol and the expiry are whatever the
  document holds. The type of the numbers is \<open>fl\<close>, and \<open>num\<close> in the surge detector.
\<close>

record 'n row =
  symbol :: json
  underlying :: "'n option"
  expiry :: json
  strike :: "'n option"
  CE_iv :: "'n option"
  PE_iv :: "'n option"
  CE_ltp :: "'n option"
  PE_ltp :: "'n option"
  CE_vol :: "'n option"
  PE_vol :: "'n option"

text \<open>\<^verbatim>\<open>r.get(f"{side}_iv")\<close>, \<^verbatim>\<open>r.get(f"{side}_ltp")\<close> and \<^verbatim>\<open>r.get(f"{side}_vol")\<close>.\<close>

fun iv_of :: "side \<Rightarrow> 'n row \<Rightarrow> 'n option" where
  "iv_of CE r = CE_iv r"
| "iv_of PE r = PE_iv r"

fun ltp_of :: "side \<Rightarrow> 'n row \<Rightarrow> 'n option" where
  "ltp_of CE r = CE_ltp r"
| "ltp_of PE r = PE_ltp r"

fun vol_of :: "side \<Rightarrow> 'n row \<Rightarrow> 'n option" where
  "vol_of CE r = CE_vol r"
| "vol_of PE r = PE_vol r"

text \<open>
  Python truthiness of an optional float: \<^verbatim>\<open>None\<close> and zero are falsy, NaN and the
  infinities are truthy.
\<close>

fun truthy :: "fl option \<Rightarrow> bool" where
  "truthy None = False"
| "truthy (Some x) = (x \<noteq> Fin 0)"

text \<open>A row with the given strike and quotes, for concrete chains.\<close>

definition quote :: "'n \<Rightarrow> 'n option \<Rightarrow> 'n option \<Rightarrow> 'n option \<Rightarrow> 'n option \<Rightarrow> 'n row" where
  "quote k civ piv cltp pltp =
     \<lparr>symbol = JNull, underlying = None, expiry = JNull, strike = Some k,
      CE_iv = civ, PE_iv = piv, CE_ltp = cltp, PE_ltp = pltp, CE_vol = None, PE_vol = None\<rparr>"

section \<open>Sorting\<close>

text \<open>
  \<^verbatim>\<open>list.sort(key=f, reverse=True)\<close>: a stable sort into descending key order. CPython
  reverses the list, sorts it stably ascending and reverses it again, so elements with
  equal keys keep their original order.
\<close>

definition sort_desc :: "('a \<Rightarrow> 'k::linorder) \<Rightarrow> 'a list \<Rightarrow> 'a list" where
  "sort_desc f xs = rev (sort_key f (rev xs))"

text \<open>
  \<^verbatim>\<open>list.sort(key=f)\<close> on keys that may hold NaN. \<open>lt\<close> is Python's \<^verbatim>\<open><\<close> on the keys,
  \<open>ordered\<close> says that a key holds no NaN, \<open>rank\<close> places such a key in a linear order.
  When every key is ordered the sort is the stable sort. A list in which no element is
  below its predecessor is one ascending run, which the sort leaves as it is. What the
  merge does to any other list with a NaN key is \<open>srt\<close>, a parameter.
\<close>

definition py_sort ::
  "('a list \<Rightarrow> 'a list) \<Rightarrow> ('a \<Rightarrow> 'a \<Rightarrow> bool) \<Rightarrow> ('a \<Rightarrow> bool) \<Rightarrow> ('a \<Rightarrow> 'k::linorder) \<Rightarrow> 'a list
     \<Rightarrow> 'a list" where
  "py_sort srt lt ordered rank xs =
     (if list_all ordered xs then sort_key rank xs
      else if successively (\<lambda>a b. \<not> lt b a) xs then xs
      else srt xs)"

text \<open>With \<^verbatim>\<open>reverse=True\<close> the list is reversed, sorted and reversed again.\<close>

definition py_sort_desc ::
  "('a list \<Rightarrow> 'a list) \<Rightarrow> ('a \<Rightarrow> 'a \<Rightarrow> bool) \<Rightarrow> ('a \<Rightarrow> bool) \<Rightarrow> ('a \<Rightarrow> 'k::linorder) \<Rightarrow> 'a list
     \<Rightarrow> 'a list" where
  "py_sort_desc srt lt ordered rank xs = rev (py_sort srt lt ordered rank (rev xs))"

text \<open>Whatever the sort does, it returns the elements it was given.\<close>

definition permuting :: "('a list \<Rightarrow> 'a list) \<Rightarrow> bool" where
  "permuting srt \<longleftrightarrow> (\<forall>xs. mset (srt xs) = mset xs)"

section \<open>Normalizer\<close>

text \<open>Python truthiness of a JSON value.\<close>

fun py_truthy :: "json \<Rightarrow> bool" where
  "py_truthy JNull = False"
| "py_truthy (JBool b) = b"
| "py_truthy (JInt i) = (i \<noteq> 0)"
| "py_truthy (JFloat x) = (x \<noteq> Fin 0)"
| "py_truthy (JStr s) = (s \<noteq> [])"
| "py_truthy (JArr xs) = (xs \<noteq> [])"
| "py_truthy (JObj kvs) = (kvs \<noteq> [])"

text \<open>\<^verbatim>\<open>a or b\<close>.\<close>

definition py_or :: "json \<Rightarrow> json \<Rightarrow> json" where
  "py_or a b = (if py_truthy a then a else b)"

text \<open>\<^verbatim>\<open>pat in s\<close> on two strings: \<open>pat\<close> occurs in \<open>s\<close> as a contiguous piece.\<close>

fun starts_with :: "string \<Rightarrow> string \<Rightarrow> bool" where
  "starts_with [] s = True"
| "starts_with (p # ps) [] = False"
| "starts_with (p # ps) (c # cs) = (p = c \<and> starts_with ps cs)"

fun occurs_in :: "string \<Rightarrow> string \<Rightarrow> bool" where
  "occurs_in pat [] = (pat = [])"
| "occurs_in pat (c # cs) = (starts_with pat (c # cs) \<or> occurs_in pat cs)"

text \<open>
  \<^verbatim>\<open>key in x\<close> for a string key: a key of a dict, an element of a list, a piece of a string;
  any other value is not iterable.
\<close>

fun py_in :: "string \<Rightarrow> json \<Rightarrow> error + bool" where
  "py_in key (JObj kvs) = Inr (key \<in> set (map fst kvs))"
| "py_in key (JArr xs) = Inr (JStr key \<in> set xs)"
| "py_in key (JStr s) = Inr (occurs_in key s)"
| "py_in key v = Inl TypeError"

text \<open>\<^verbatim>\<open>x[key]\<close> for a string key: only a dict can be indexed by a string.\<close>

fun py_index :: "json \<Rightarrow> string \<Rightarrow> error + json" where
  "py_index (JObj kvs) key = (case map_of kvs key of None \<Rightarrow> Inl KeyError | Some v \<Rightarrow> Inr v)"
| "py_index v key = Inl TypeError"

text \<open>\<^verbatim>\<open>x.get(key, default)\<close>: only a dict has the method.\<close>

fun py_get :: "json \<Rightarrow> string \<Rightarrow> json \<Rightarrow> error + json" where
  "py_get (JObj kvs) key dflt = Inr (case map_of kvs key of None \<Rightarrow> dflt | Some v \<Rightarrow> v)"
| "py_get v key dflt = Inl AttributeError"

text \<open>\<^verbatim>\<open>for item in x\<close>: the elements of a list, the keys of a dict, the characters of a string.\<close>

fun py_iter :: "json \<Rightarrow> error + json list" where
  "py_iter (JArr xs) = Inr xs"
| "py_iter (JObj kvs) = Inr (map (\<lambda>kv. JStr (fst kv)) kvs)"
| "py_iter (JStr s) = Inr (map (\<lambda>c. JStr [c]) s)"
| "py_iter v = Inl TypeError"

text \<open>
  \<^verbatim>\<open>safe_float\<close>. \<^verbatim>\<open>float\<close> of an \<^verbatim>\<open>int\<close> rounds it to a double, and raises \<^verbatim>\<open>OverflowError\<close>,
  which is not caught, when that would overflow (from \<open>2^1024 - 2^970\<close> on). \<^verbatim>\<open>float\<close> of a
  string is Python's parser, taken as the parameter \<open>pf\<close> (\<open>None\<close> where it raises
  \<^verbatim>\<open>ValueError\<close>; it reads \<^verbatim>\<open>"nan"\<close> and \<^verbatim>\<open>"inf"\<close>); \<^verbatim>\<open>float\<close> of a list or a dict is a
  \<^verbatim>\<open>TypeError\<close>. These two exceptions are caught.
\<close>

fun safe_float :: "rounding \<Rightarrow> (string \<Rightarrow> fl option) \<Rightarrow> json \<Rightarrow> error + fl option" where
  "safe_float rd pf JNull = Inr None"
| "safe_float rd pf (JBool b) = Inr (Some (Fin (if b then 1 else 0)))"
| "safe_float rd pf (JInt i) =
     (if \<bar>i\<bar> \<ge> 2 ^ 1024 - 2 ^ 970 then Inl OverflowError else Inr (Some (rd (of_int i))))"
| "safe_float rd pf (JFloat x) = Inr (Some x)"
| "safe_float rd pf (JStr s) = Inr (pf s)"
| "safe_float rd pf (JArr xs) = Inr None"
| "safe_float rd pf (JObj kvs) = Inr None"

text \<open>Sequencing of steps that may raise.\<close>

fun and_then :: "error + 'a \<Rightarrow> ('a \<Rightarrow> error + 'b) \<Rightarrow> error + 'b" where
  "and_then (Inl e) f = Inl e"
| "and_then (Inr x) f = f x"

text \<open>\<^verbatim>\<open>safe_float(x.get(key))\<close>.\<close>

definition float_at ::
  "rounding \<Rightarrow> (string \<Rightarrow> fl option) \<Rightarrow> json \<Rightarrow> string \<Rightarrow> error + fl option" where
  "float_at rd pf x key = and_then (py_get x key JNull) (safe_float rd pf)"

text \<open>
  \<^verbatim>\<open>safe_float(x.get(k1) or x.get(k2) or x.get(k3))\<close>, the volume of a leg.
\<close>

definition volume_at ::
  "rounding \<Rightarrow> (string \<Rightarrow> fl option) \<Rightarrow> json \<Rightarrow> error + fl option" where
  "volume_at rd pf x =
     and_then (py_get x ''totalTradedVolume'' JNull) (\<lambda>v1.
     and_then (py_get x ''lastTradedVolume'' JNull) (\<lambda>v2.
     and_then (py_get x ''totalTradedQty'' JNull) (\<lambda>v3.
       safe_float rd pf (py_or v1 (py_or v2 v3)))))"

text \<open>
  The body of the loop of \<^verbatim>\<open>parse_rows\<close> for one item, in the order of the source: the
  strike is read before the expiry is compared, and the values of the row are read in the
  order of its keys. No row when the expiry is not the chosen one. A chosen expiry is a
  string; a string differs from every value that is not the same string.
\<close>

definition parse_item ::
  "rounding \<Rightarrow> (string \<Rightarrow> fl option) \<Rightarrow> json \<Rightarrow> fl option \<Rightarrow> string option \<Rightarrow> json
     \<Rightarrow> error + fl row option" where
  "parse_item rd pf symbol_name underlying' chosen_expiry item =
     and_then (float_at rd pf item ''strikePrice'') (\<lambda>strike'.
     and_then (py_get item ''expiryDate'' JNull) (\<lambda>expiry'.
       if (case chosen_expiry of None \<Rightarrow> False | Some c \<Rightarrow> c \<noteq> [] \<and> expiry' \<noteq> JStr c)
       then Inr None
       else
         and_then (py_get item ''CE'' JNull) (\<lambda>ce0.
         and_then (py_get item ''PE'' JNull) (\<lambda>pe0.
           let ce = py_or ce0 (JObj []); pe = py_or pe0 (JObj [])
           in and_then (float_at rd pf ce ''impliedVolatility'') (\<lambda>civ.
              and_then (float_at rd pf pe ''impliedVolatility'') (\<lambda>piv.
              and_then (float_at rd pf ce ''lastPrice'') (\<lambda>cltp.
              and_then (float_at rd pf pe ''lastPrice'') (\<lambda>pltp.
              and_then (volume_at rd pf ce) (\<lambda>cvol.
              and_then (volume_at rd pf pe) (\<lambda>pvol.
                Inr (Some
                  \<lparr>symbol = symbol_name, underlying = underlying', expiry = expiry',
                   strike = strike', CE_iv = civ, PE_iv = piv, CE_ltp = cltp, PE_ltp = pltp,
                   CE_vol = cvol, PE_vol = pvol\<rparr>)))))))))))"

text \<open>The loop: the rows of the items in order; the first exception ends it.\<close>

fun parse_items ::
  "rounding \<Rightarrow> (string \<Rightarrow> fl option) \<Rightarrow> json \<Rightarrow> fl option \<Rightarrow> string option \<Rightarrow> json list
     \<Rightarrow> error + fl row list" where
  "parse_items rd pf symbol_name underlying' chosen_expiry [] = Inr []"
| "parse_items rd pf symbol_name underlying' chosen_expiry (item # items) =
     and_then (parse_item rd pf symbol_name underlying' chosen_expiry item) (\<lambda>r.
     and_then (parse_items rd pf symbol_name underlying' chosen_expiry items) (\<lambda>rs.
       Inr (case r of None \<Rightarrow> rs | Some r' \<Rightarrow> r' # rs)))"

text \<open>The dict that \<^verbatim>\<open>parse_rows\<close> returns.\<close>

record snapshot =
  s_rows :: "fl row list"
  s_expiries :: json
  s_underlying :: "fl option"
  s_symbol_name :: json

text \<open>
  The sort key \<^verbatim>\<open>r["strike"]\<close>, compared after the rows without strike are gone: Python's
  \<^verbatim>\<open><\<close> on two keys, whether a key is a number, and its place among the numbers.
\<close>

definition strike_lt :: "fl row \<Rightarrow> fl row \<Rightarrow> bool" where
  "strike_lt r r' =
     (case strike r of None \<Rightarrow> False
      | Some a \<Rightarrow> (case strike r' of None \<Rightarrow> False | Some b \<Rightarrow> flt a b))"

definition strike_number :: "fl row \<Rightarrow> bool" where
  "strike_number r = (case strike r of None \<Rightarrow> False | Some k \<Rightarrow> \<not> is_nan k)"

definition strike_key :: "fl row \<Rightarrow> int \<times> rat" where
  "strike_key r = (case strike r of None \<Rightarrow> (0, 0) | Some k \<Rightarrow> key_of k)"

definition parse_rows ::
  "rounding \<Rightarrow> (string \<Rightarrow> fl option) \<Rightarrow> (fl row list \<Rightarrow> fl row list) \<Rightarrow> json \<Rightarrow> string option
     \<Rightarrow> error + snapshot" where
  "parse_rows rd pf srt oc_json chosen_expiry =
     (let empty = \<lparr>s_rows = [], s_expiries = JArr [], s_underlying = None, s_symbol_name = JNull\<rparr>
      in if \<not> py_truthy oc_json then Inr empty
         else
           and_then (py_in ''records'' oc_json) (\<lambda>present.
             if \<not> present then Inr empty
             else
               and_then (py_index oc_json ''records'') (\<lambda>rec.
               and_then (py_get rec ''expiryDates'' (JArr [])) (\<lambda>ed.
               and_then (py_get rec ''data'' (JArr [])) (\<lambda>dt.
               and_then (py_get rec ''index'' JNull) (\<lambda>idx.
               and_then (py_get rec ''underlying'' JNull) (\<lambda>ul.
               and_then (float_at rd pf rec ''underlyingValue'') (\<lambda>underlying'.
                 let expiries = py_or ed (JArr []);
                     data = py_or dt (JArr []);
                     symbol_name = py_or idx ul
                 in and_then (py_iter data) (\<lambda>items.
                    and_then (parse_items rd pf symbol_name underlying' chosen_expiry items) (\<lambda>rows.
                      Inr \<lparr>s_rows = py_sort srt strike_lt strike_number strike_key
                                      (filter (\<lambda>r. strike r \<noteq> None) rows),
                           s_expiries = expiries, s_underlying = underlying',
                           s_symbol_name = symbol_name\<rparr>))))))))))"

section \<open>SignalEngine: nearest\_strike\_iv\<close>

text \<open>\<^verbatim>\<open>abs(strike - under)\<close>.\<close>

definition distance :: "rounding \<Rightarrow> fl \<Rightarrow> fl \<Rightarrow> fl" where
  "distance rd k und = fabs (fsub rd k und)"

text \<open>
  The loop of \<^verbatim>\<open>nearest_strike_iv\<close> on the pair \<^verbatim>\<open>(best, bestd)\<close>, which starts as
  \<^verbatim>\<open>(None, float('inf'))\<close>.
\<close>

fun nearest_scan ::
  "rounding \<Rightarrow> fl \<Rightarrow> side \<Rightarrow> fl row option \<times> fl \<Rightarrow> fl row list \<Rightarrow> fl row option \<times> fl" where
  "nearest_scan rd und sd acc [] = acc"
| "nearest_scan rd und sd (best, bestd) (r # rs) =
     (case iv_of sd r of
        None \<Rightarrow> nearest_scan rd und sd (best, bestd) rs
      | Some iv \<Rightarrow>
          (case strike r of
             None \<Rightarrow> nearest_scan rd und sd (best, bestd) rs
           | Some k \<Rightarrow>
               (let d = distance rd k und
                in if flt d bestd
                   then nearest_scan rd und sd (Some r, d) rs
                   else nearest_scan rd und sd (best, bestd) rs)))"

definition nearest_strike_iv ::
  "rounding \<Rightarrow> fl row list \<Rightarrow> fl \<Rightarrow> side \<Rightarrow> fl option \<times> fl option" where
  "nearest_strike_iv rd rows und sd =
     (case fst (nearest_scan rd und sd (None, PInf) rows) of
        None \<Rightarrow> (None, None)
      | Some best \<Rightarrow> (strike best, iv_of sd best))"

text \<open>A row the scan looks at: it has an IV for the side and a strike.\<close>

definition usable :: "side \<Rightarrow> fl row \<Rightarrow> bool" where
  "usable sd r \<longleftrightarrow> iv_of sd r \<noteq> None \<and> strike r \<noteq> None"

text \<open>The distance the scan computes for a row.\<close>

definition gap :: "rounding \<Rightarrow> fl \<Rightarrow> fl row \<Rightarrow> fl" where
  "gap rd und r = (case strike r of None \<Rightarrow> NaN | Some k \<Rightarrow> distance rd k und)"

text \<open>
  A row the scan can choose: a usable row whose distance is below infinity, that is, a
  finite number (not NaN, not infinite).
\<close>

definition reachable :: "rounding \<Rightarrow> fl \<Rightarrow> side \<Rightarrow> fl row \<Rightarrow> bool" where
  "reachable rd und sd r \<longleftrightarrow> usable sd r \<and> flt (gap rd und r) PInf"

text \<open>Rows in ascending strike order, as the normalizer leaves rows whose strikes are numbers.\<close>

definition strike_le :: "fl row \<Rightarrow> fl row \<Rightarrow> bool" where
  "strike_le r r' =
     (case strike r of None \<Rightarrow> True
      | Some a \<Rightarrow> (case strike r' of None \<Rightarrow> True | Some b \<Rightarrow> fle a b))"

definition ascending :: "fl row list \<Rightarrow> bool" where
  "ascending rows = sorted_wrt strike_le rows"

section \<open>SignalEngine: get\_straddle\_info\<close>

text \<open>
  The first loop: the strike of the first row whose strike is truthy (neither \<^verbatim>\<open>None\<close> nor
  zero) and within 0.1 of the underlying. The literal \<^verbatim>\<open>0.1\<close> is the double nearest to it.
\<close>

fun atm_exact :: "rounding \<Rightarrow> fl \<Rightarrow> fl row list \<Rightarrow> fl option" where
  "atm_exact rd und [] = None"
| "atm_exact rd und (r # rs) =
     (case strike r of
        None \<Rightarrow> atm_exact rd und rs
      | Some k \<Rightarrow>
          if k \<noteq> Fin 0 \<and> flt (distance rd k und) (rd (1 / 10)) then Some k
          else atm_exact rd und rs)"

text \<open>
  \<^verbatim>\<open>min(rows, key=lambda x: abs(x["strike"] - underlying))\<close>: the first row whose key is below
  the keys before it and not above the keys after it. The key of a row without strike is
  \<^verbatim>\<open>None - float\<close>, a \<^verbatim>\<open>TypeError\<close>; \<^verbatim>\<open>min\<close> of an empty list is a \<^verbatim>\<open>ValueError\<close> (the caller
  has excluded it).
\<close>

fun min_scan :: "rounding \<Rightarrow> fl \<Rightarrow> fl row \<times> fl \<Rightarrow> fl row list \<Rightarrow> error + fl row" where
  "min_scan rd und (b, bd) [] = Inr b"
| "min_scan rd und (b, bd) (r # rs) =
     (case strike r of
        None \<Rightarrow> Inl TypeError
      | Some k \<Rightarrow> if flt (distance rd k und) bd then min_scan rd und (r, distance rd k und) rs
                  else min_scan rd und (b, bd) rs)"

fun min_by_gap :: "rounding \<Rightarrow> fl \<Rightarrow> fl row list \<Rightarrow> error + fl row" where
  "min_by_gap rd und [] = Inl ValueError"
| "min_by_gap rd und (r # rs) =
     (case strike r of
        None \<Rightarrow> Inl TypeError
      | Some k \<Rightarrow> min_scan rd und (r, distance rd k und) rs)"

text \<open>
  Lines 134 to 140: the exact match, else (\<^verbatim>\<open>if not atm_strike\<close>) the strike of the nearest
  row. \<^verbatim>\<open>atm_exact\<close> never yields zero, so \<^verbatim>\<open>not atm_strike\<close> holds exactly when it found
  nothing.
\<close>

definition resolve_atm :: "rounding \<Rightarrow> fl \<Rightarrow> fl row list \<Rightarrow> error + fl option" where
  "resolve_atm rd und rows =
     (case atm_exact rd und rows of
        Some k \<Rightarrow> Inr (Some k)
      | None \<Rightarrow> (case min_by_gap rd und rows of Inl e \<Rightarrow> Inl e | Inr r \<Rightarrow> Inr (strike r)))"

text \<open>\<^verbatim>\<open>r["strike"] == atm_strike\<close>: equal numbers; NaN equals nothing.\<close>

fun same_strike :: "fl option \<Rightarrow> fl option \<Rightarrow> bool" where
  "same_strike (Some a) (Some b) = feq a b"
| "same_strike None None = True"
| "same_strike a b = False"

text \<open>
  The second loop: \<^verbatim>\<open>ce_row\<close> and \<^verbatim>\<open>pe_row\<close> are overwritten by every row at the ATM strike
  whose LTP for that leg is truthy, so the last such row stays.
\<close>

fun pick_legs ::
  "fl option \<Rightarrow> fl row option \<times> fl row option \<Rightarrow> fl row list \<Rightarrow> fl row option \<times> fl row option" where
  "pick_legs atm acc [] = acc"
| "pick_legs atm (ce_row, pe_row) (r # rs) =
     (if same_strike (strike r) atm
      then pick_legs atm (if truthy (CE_ltp r) then Some r else ce_row,
                          if truthy (PE_ltp r) then Some r else pe_row) rs
      else pick_legs atm (ce_row, pe_row) rs)"

text \<open>The label \<^verbatim>\<open>f"{atm_strike} CE + {atm_strike} PE"\<close>, kept as the strike it prints.\<close>

datatype label = CE_plus_PE "fl option"

type_synonym straddle = "fl option \<times> fl option \<times> fl option \<times> label option"

text \<open>\<^verbatim>\<open>a + b\<close> on two results of \<^verbatim>\<open>safe_float\<close>: \<^verbatim>\<open>None\<close> on either side is a \<^verbatim>\<open>TypeError\<close>.\<close>

fun py_add :: "rounding \<Rightarrow> fl option \<Rightarrow> fl option \<Rightarrow> error + fl" where
  "py_add rd (Some a) (Some b) = Inr (fadd rd a b)"
| "py_add rd a b = Inl TypeError"

definition get_straddle_info :: "rounding \<Rightarrow> fl row list \<Rightarrow> fl option \<Rightarrow> error + straddle" where
  "get_straddle_info rd rows underlying' =
     (case underlying' of
        None \<Rightarrow> Inr (None, None, None, None)
      | Some und \<Rightarrow>
          if rows = [] then Inr (None, None, None, None)
          else
            (case resolve_atm rd und rows of
               Inl e \<Rightarrow> Inl e
             | Inr atm_strike \<Rightarrow>
                 (case pick_legs atm_strike (None, None) rows of
                    (Some ce_row, Some pe_row) \<Rightarrow>
                      (case py_add rd (CE_ltp ce_row) (PE_ltp pe_row) of
                         Inl e \<Rightarrow> Inl e
                       | Inr price \<Rightarrow>
                           (case py_add rd (CE_iv ce_row) (PE_iv pe_row) of
                              Inl e \<Rightarrow> Inl e
                            | Inr ivs \<Rightarrow>
                                Inr (Some (fround rd 2 price),
                                     Some (fround rd 2 (fdiv rd ivs (Fin 2))),
                                     atm_strike, Some (CE_plus_PE atm_strike))))
                  | _ \<Rightarrow> Inr (None, None, None, None))))"

text \<open>
  The row that supplies a leg: the last row at the ATM strike whose LTP for that side is
  present and not zero.
\<close>

definition leg :: "side \<Rightarrow> fl option \<Rightarrow> fl row list \<Rightarrow> fl row option" where
  "leg sd atm rows = find (\<lambda>r. same_strike (strike r) atm \<and> truthy (ltp_of sd r)) (rev rows)"

section \<open>Scanner: build\_hits\<close>

text \<open>A breakout hit, the dict that \<^verbatim>\<open>build_hits\<close> appends.\<close>

record hit =
  h_strike :: fl
  h_iv :: fl
  h_ltp :: "fl option"
  h_inc :: fl
  h_dist_pct :: fl

text \<open>
  The loop of \<^verbatim>\<open>build_hits\<close> over the rows. The division by the underlying raises
  \<^verbatim>\<open>ZeroDivisionError\<close> when the underlying is zero, which aborts the loop.
\<close>

fun collect_hits :: "rounding \<Rightarrow> side \<Rightarrow> fl \<Rightarrow> fl \<Rightarrow> fl \<Rightarrow> fl row list \<Rightarrow> error + hit list" where
  "collect_hits rd sd atm_iv und thr [] = Inr []"
| "collect_hits rd sd atm_iv und thr (r # rs) =
     (case iv_of sd r of
        None \<Rightarrow> collect_hits rd sd atm_iv und thr rs
      | Some iv \<Rightarrow>
          (case strike r of
             None \<Rightarrow> collect_hits rd sd atm_iv und thr rs
           | Some k \<Rightarrow>
               if sd = CE \<and> flt k und then collect_hits rd sd atm_iv und thr rs
               else if sd = PE \<and> flt und k then collect_hits rd sd atm_iv und thr rs
               else
                 (let inc = fsub rd iv atm_iv
                  in if fle thr inc
                     then
                       (case py_div rd (distance rd k und) und of
                          Inl e \<Rightarrow> Inl e
                        | Inr ratio \<Rightarrow>
                            (let dist_pct = fmul rd ratio (Fin 100)
                             in case collect_hits rd sd atm_iv und thr rs of
                                  Inl e \<Rightarrow> Inl e
                                | Inr hits \<Rightarrow>
                                    Inr (\<lparr>h_strike = k, h_iv = iv, h_ltp = ltp_of sd r,
                                          h_inc = fround rd 2 inc,
                                          h_dist_pct = fround rd 2 dist_pct\<rparr> # hits)))
                     else collect_hits rd sd atm_iv und thr rs)))"

text \<open>
  The sort key \<^verbatim>\<open>(x["inc"], -abs(x["dist_pct"]))\<close>. Python compares two tuples at the first
  place where their items are not equal.
\<close>

definition hit_key :: "hit \<Rightarrow> fl \<times> fl" where
  "hit_key x = (h_inc x, fneg (fabs (h_dist_pct x)))"

definition hit_lt :: "hit \<Rightarrow> hit \<Rightarrow> bool" where
  "hit_lt x y =
     (if feq (fst (hit_key x)) (fst (hit_key y))
      then flt (snd (hit_key x)) (snd (hit_key y))
      else flt (fst (hit_key x)) (fst (hit_key y)))"

definition hit_numbers :: "hit \<Rightarrow> bool" where
  "hit_numbers x \<longleftrightarrow> \<not> is_nan (h_inc x) \<and> \<not> is_nan (h_dist_pct x)"

definition hit_rank :: "hit \<Rightarrow> (int \<times> rat) \<times> (int \<times> rat)" where
  "hit_rank x = (key_of (fst (hit_key x)), key_of (snd (hit_key x)))"

definition build_hits ::
  "rounding \<Rightarrow> (hit list \<Rightarrow> hit list) \<Rightarrow> fl row list \<Rightarrow> fl \<Rightarrow> fl \<Rightarrow> side \<Rightarrow> fl option
     \<Rightarrow> error + hit list" where
  "build_hits rd srt rows und thr side_name atm_iv =
     (case atm_iv of
        None \<Rightarrow> Inr []
      | Some c \<Rightarrow>
          (case collect_hits rd side_name c und thr rows of
             Inl e \<Rightarrow> Inl e
           | Inr hits \<Rightarrow> Inr (py_sort_desc srt hit_lt hit_numbers hit_rank hits)))"

section \<open>SurgeDetector\<close>

datatype tier = NUCLEAR | EXTREME | STRONG | GOOD

datatype bomb = OTM_BOMB | INSTITUTIONAL_BOMB

text \<open>
  A surge event, the dict appended to \<^verbatim>\<open>out\<close>. Its \<^verbatim>\<open>timestamp\<close> is the wall clock at the
  moment of the append and is left out.
\<close>

record event =
  e_symbol :: string
  e_expiry :: "string option"
  e_strike :: int
  e_side :: side
  e_prev :: num
  e_curr :: num
  e_pct :: num
  e_speed :: num
  e_volume :: int
  e_lots :: num
  e_strength :: tier
  e_type :: bomb

text \<open>Python's \<^verbatim>\<open>int(x)\<close> on a float: truncation towards zero.\<close>

definition py_int :: "num \<Rightarrow> int" where
  "py_int x = (if 0 \<le> x then \<lfloor>x\<rfloor> else \<lceil>x\<rceil>)"

text \<open>
  The module-level \<^verbatim>\<open>LOT_SIZES\<close> and \<^verbatim>\<open>get_lot_size\<close>. The symbols reach it in upper case
  already (line 727), so \<^verbatim>\<open>sym.upper()\<close> is the symbol itself.
\<close>

definition LOT_SIZES :: "(string \<times> int) list" where
  "LOT_SIZES =
     [(''NIFTY'', 25), (''BANKNIFTY'', 15), (''FINNIFTY'', 25), (''MIDCPNIFTY'', 50),
      (''SENSEX'', 10), (''SENSEX50'', 15), (''INDIAVIX'', 100)]"

definition get_lot_size :: "string \<Rightarrow> int" where
  "get_lot_size sym' = (case map_of LOT_SIZES sym' of None \<Rightarrow> 50 | Some n \<Rightarrow> n)"

text \<open>\<^verbatim>\<open>deque(maxlen=5).append(x)\<close>: a full deque drops its oldest element first.\<close>

definition deque_append :: "num list \<Rightarrow> num \<Rightarrow> num list" where
  "deque_append d x = (if length d < 5 then d @ [x] else tl d @ [x])"

text \<open>
  Lines 768 to 770 (803 for PE): the momentum against \<^verbatim>\<open>cache[side][0]\<close>, the oldest price
  the deque holds. A stored zero there is a \<^verbatim>\<open>ZeroDivisionError\<close>.
\<close>

definition surge_speed :: "num list \<Rightarrow> num \<Rightarrow> error + num" where
  "surge_speed h cur =
     (if length h \<ge> 3
      then if hd h = 0 then Inl ZeroDivisionError else Inr ((cur - hd h) / hd h * 100)
      else Inr 0)"

definition tier_of :: "num \<Rightarrow> tier" where
  "tier_of pct =
     (if pct \<ge> 1000 then NUCLEAR else if pct \<ge> 500 then EXTREME
      else if pct \<ge> 300 then STRONG else GOOD)"

text \<open>The dict of lines 776 to 790, with \<^verbatim>\<open>lots\<close> and \<^verbatim>\<open>strength\<close> of lines 772 and 773.\<close>

definition make_event ::
  "string \<Rightarrow> string option \<Rightarrow> num \<Rightarrow> side \<Rightarrow> num \<Rightarrow> num \<Rightarrow> num \<Rightarrow> num \<Rightarrow> num \<Rightarrow> int \<Rightarrow> event" where
  "make_event sym' used k sd prev cur pct speed vol lot_size =
     (let lots = vol / of_int lot_size;
          strength = tier_of pct
      in \<lparr>e_symbol = sym', e_expiry = used, e_strike = py_int k, e_side = sd,
          e_prev = py_round 2 prev, e_curr = py_round 2 cur, e_pct = py_round 1 pct,
          e_speed = py_round 1 speed, e_volume = py_int vol, e_lots = py_round 2 lots,
          e_strength = strength,
          e_type = (if lots < 5 then OTM_BOMB else INSTITUTIONAL_BOMB)\<rparr>)"

text \<open>The out-of-the-money buffer: \<^verbatim>\<open>strike > under + 10\<close> for CE, \<^verbatim>\<open>strike < under - 10\<close> for PE.\<close>

fun otm :: "side \<Rightarrow> num \<Rightarrow> num \<Rightarrow> bool" where
  "otm CE k und = (k > und + 10)"
| "otm PE k und = (k < und - 10)"

text \<open>
  One side of one row (lines 761 to 791 for CE, 794 to 824 for PE) against the history \<open>h\<close>
  of that side: the events to append to \<^verbatim>\<open>out\<close> and the new history. An exception leaves
  both as they were.
\<close>

definition surge_side ::
  "string \<Rightarrow> string option \<Rightarrow> int \<Rightarrow> num \<Rightarrow> num \<Rightarrow> num \<Rightarrow> side \<Rightarrow> num row \<Rightarrow> num list
     \<Rightarrow> error + (event list \<times> num list)" where
  "surge_side sym' used lot_size min_pct k und sd r h =
     (case ltp_of sd r of
        None \<Rightarrow> Inr ([], h)
      | Some p \<Rightarrow>
          let vol = (case vol_of sd r of None \<Rightarrow> 0 | Some v \<Rightarrow> v)
          in if p \<noteq> 0 \<and> otm sd k und
             then
               if h \<noteq> []
               then
                 (let prev = last h
                  in if prev > 1 / 10
                     then
                       (let pct = (p - prev) / prev * 100
                        in case surge_speed h p of
                             Inl e \<Rightarrow> Inl e
                           | Inr speed \<Rightarrow>
                               Inr (if pct \<ge> min_pct
                                    then [make_event sym' used k sd prev p pct speed vol lot_size]
                                    else [],
                                    deque_append h p))
                     else Inr ([], deque_append h p))
               else Inr ([], deque_append h p)
             else Inr ([], h))"

text \<open>
  The cache: \<^verbatim>\<open>PREV_SURGE_CACHE[(sym, expiry)][strike]\<close> holds the two deques (its \<^verbatim>\<open>"ts"\<close>
  is never written after the initial \<^verbatim>\<open>None\<close>).
\<close>

record entry =
  hist_CE :: "num list"
  hist_PE :: "num list"

type_synonym strike_cache = "num \<rightharpoonup> entry"

type_synonym surge_cache = "(string \<times> string option) \<rightharpoonup> strike_cache"


text \<open>
  One row (lines 751 to 824) on the inner dict of the symbol's key and on \<^verbatim>\<open>out\<close>. The
  entry of a new strike is created before the checks; the CE check runs before the PE check,
  and an exception stops the row with what was written so far.
\<close>

definition surge_row ::
  "string \<Rightarrow> string option \<Rightarrow> int \<Rightarrow> num \<Rightarrow> num \<Rightarrow> num row \<Rightarrow> strike_cache \<times> event list
     \<Rightarrow> (strike_cache \<times> event list) \<times> error option" where
  "surge_row sym' used lot_size min_pct und r st =
     (case st of (sc, out) \<Rightarrow>
        (case strike r of
           None \<Rightarrow> ((sc, out), None)
         | Some k \<Rightarrow>
             if k = 0 then ((sc, out), None)
             else
               (let cache = (case sc k of None \<Rightarrow> \<lparr>hist_CE = [], hist_PE = []\<rparr> | Some e \<Rightarrow> e)
                in case surge_side sym' used lot_size min_pct k und CE r (hist_CE cache) of
                     Inl e \<Rightarrow> ((sc(k \<mapsto> cache), out), Some e)
                   | Inr (evs, h) \<Rightarrow>
                       (let cache1 = cache\<lparr>hist_CE := h\<rparr>; out1 = out @ evs
                        in case surge_side sym' used lot_size min_pct k und PE r (hist_PE cache1) of
                             Inl e \<Rightarrow> ((sc(k \<mapsto> cache1), out1), Some e)
                           | Inr (evs', h') \<Rightarrow>
                               ((sc(k \<mapsto> cache1\<lparr>hist_PE := h'\<rparr>), out1 @ evs'), None)))))"

text \<open>The loop over the rows; an exception ends it (the handler of line 826 logs it).\<close>

fun surge_rows ::
  "string \<Rightarrow> string option \<Rightarrow> int \<Rightarrow> num \<Rightarrow> num \<Rightarrow> num row list \<Rightarrow> strike_cache \<times> event list
     \<Rightarrow> strike_cache \<times> event list" where
  "surge_rows sym' used lot_size min_pct und [] st = st"
| "surge_rows sym' used lot_size min_pct und (r # rs) st =
     (case surge_row sym' used lot_size min_pct und r st of
        (st', None) \<Rightarrow> surge_rows sym' used lot_size min_pct und rs st'
      | (st', Some e) \<Rightarrow> st')"

text \<open>
  What one symbol contributes to a scan: the symbol, the expiry used and the parsed chain
  (lines 737 to 742 fetch and normalize it).
\<close>

record observation =
  o_sym :: string
  o_used :: "string option"
  o_rows :: "num row list"
  o_under :: "num option"

text \<open>Lines 743 to 824 for one symbol: skip an empty chain, create the key, run the rows.\<close>

definition surge_symbol :: "num \<Rightarrow> observation \<Rightarrow> surge_cache \<times> event list \<Rightarrow> surge_cache \<times> event list" where
  "surge_symbol min_pct ob st =
     (case st of (cache, out) \<Rightarrow>
        (case o_under ob of
           None \<Rightarrow> (cache, out)
         | Some und \<Rightarrow>
             if o_rows ob = [] then (cache, out)
             else
               (let key = (o_sym ob, o_used ob);
                    sc = (case cache key of None \<Rightarrow> Map.empty | Some c \<Rightarrow> c);
                    (sc', out') = surge_rows (o_sym ob) (o_used ob) (get_lot_size (o_sym ob))
                                    min_pct und (o_rows ob) (sc, out)
                in (cache(key \<mapsto> sc'), out'))))"

text \<open>\<^verbatim>\<open>scoreBomb\<close>, with its four successive increments.\<close>

definition scoreBomb :: "event \<Rightarrow> num" where
  "scoreBomb x =
     (let score = e_pct x;
          score = (if e_strength x = NUCLEAR then score + 5000 else score);
          score = (if e_strength x = EXTREME then score + 2000 else score);
          score = (if e_speed x > e_pct x * (3 / 2) then score + 1000 else score);
          score = (if e_type x = INSTITUTIONAL_BOMB then score + 500 else score)
      in score)"

text \<open>\<^verbatim>\<open>out.sort(key=scoreBomb, reverse=True)\<close> and \<^verbatim>\<open>out[:50]\<close>.\<close>

definition rank_events :: "event list \<Rightarrow> event list" where
  "rank_events out = take 50 (sort_desc scoreBomb out)"

text \<open>
  One call of \<^verbatim>\<open>api_premium_surge\<close> over the chains of its symbols: the cache it leaves and
  the events it returns. A sequence of calls threads the cache, which is global.
\<close>

definition surge_request :: "num \<Rightarrow> observation list \<Rightarrow> surge_cache \<Rightarrow> surge_cache \<times> event list" where
  "surge_request min_pct obs cache =
     (case fold (surge_symbol min_pct) obs (cache, []) of
        (cache', out) \<Rightarrow> (cache', rank_events out))"

fun surge_requests :: "(num \<times> observation list) list \<Rightarrow> surge_cache \<Rightarrow> surge_cache" where
  "surge_requests [] cache = cache"
| "surge_requests ((min_pct, obs) # reqs) cache =
     surge_requests reqs (fst (surge_request min_pct obs cache))"




text \<open>A scan of one symbol whose chain is a single CE quote at strike 1050, for concrete runs.\<close>

definition tick :: "num \<Rightarrow> num \<times> observation list" where
  "tick p = (100, [\<lparr>o_sym = ''X'', o_used = None,
                    o_rows = [quote 1050 None None (Some p) None], o_under = Some 1000\<rparr>])"

section \<open>UpstreamClient\<close>

text \<open>
  What the program does to the outside: \<^verbatim>\<open>s.get(url, timeout=t)\<close> and \<^verbatim>\<open>time.sleep(t)\<close>.
  The outside answers a request with a response or by raising; a response carries its
  status and what \<^verbatim>\<open>r.json()\<close> gives, a document or an exception.
\<close>

datatype io = Get string nat | Sleep num

record response =
  status_code :: nat
  body :: "error + json"

type_synonym reply = "error + response"

text \<open>
  The network as the program meets it: the reply to the request of the \<open>i\<close>-th attempt of
  \<^verbatim>\<open>get_json\<close>, and the replies to the two warm-up requests of the re-priming that attempt
  may trigger.
\<close>

record net =
  main :: "nat \<Rightarrow> reply"
  warm :: "nat \<Rightarrow> reply \<times> reply"

definition BASE :: string where
  "BASE = ''https://www.nseindia.com''"

text \<open>
  \<^verbatim>\<open>prime\<close>: two requests inside \<^verbatim>\<open>try\<close>; \<^verbatim>\<open>except requests.RequestException\<close> swallows that
  class and lets any other exception through. The result is the exception that escapes, if
  any, and the requests made.
\<close>

definition prime :: "reply \<times> reply \<Rightarrow> error option \<times> io list" where
  "prime w =
     (case fst w of
        Inl e \<Rightarrow> (if e = RequestException then None else Some e, [Get BASE 10])
      | Inr r1 \<Rightarrow>
          (case snd w of
             Inl e \<Rightarrow> (if e = RequestException then None else Some e,
                        [Get BASE 10, Get (BASE @ ''/option-chain'') 10])
           | Inr r2 \<Rightarrow> (None, [Get BASE 10, Get (BASE @ ''/option-chain'') 10])))"

text \<open>
  The loop \<^verbatim>\<open>for _ in range(retries)\<close> of \<^verbatim>\<open>get_json\<close>, with \<open>n\<close> attempts left, \<open>i\<close> attempts
  made and the trace \<open>tr\<close> so far. After the loop the function raises \<^verbatim>\<open>RuntimeError\<close>.
\<close>

fun attempts :: "nat \<Rightarrow> nat \<Rightarrow> string \<Rightarrow> net \<Rightarrow> io list \<Rightarrow> (error + json) \<times> io list" where
  "attempts 0 i url env tr = (Inl RuntimeError, tr)"
| "attempts (Suc n) i url env tr =
     (let tr1 = tr @ [Get url 12];
          handler = (\<lambda>e. if e = RequestException
                         then (case prime (warm env i) of
                                 (Some e', ptr) \<Rightarrow> (Inl e', tr1 @ ptr)
                               | (None, ptr) \<Rightarrow>
                                   attempts n (Suc i) url env (tr1 @ ptr @ [Sleep (1 / 2)]))
                         else (Inl e, tr1))
      in case main env i of
           Inl e \<Rightarrow> handler e
         | Inr r \<Rightarrow>
             if status_code r = 200
             then (case body r of Inr doc \<Rightarrow> (Inr doc, tr1) | Inl e \<Rightarrow> handler e)
             else if status_code r = 401 \<or> status_code r = 403
             then (case prime (warm env i) of
                     (Some e', ptr) \<Rightarrow> (Inl e', tr1 @ ptr)
                   | (None, ptr) \<Rightarrow>
                       attempts n (Suc i) url env (tr1 @ ptr @ [Sleep (1 / 2)]))
             else attempts n (Suc i) url env (tr1 @ [Sleep (1 / 2)]))"

definition get_json :: "string \<Rightarrow> net \<Rightarrow> (error + json) \<times> io list" where
  "get_json url env = attempts 3 0 url env []"

text \<open>
  The contract in the words of the specification. An attempt succeeds on status 200 with a
  parsed body. A failed attempt is its request, then the re-priming (the two warm-up
  requests, the second only after the first was answered) when the status was 401 or 403 or
  the attempt raised, then the fixed delay.
\<close>

fun succeeded :: "reply \<Rightarrow> json option" where
  "succeeded (Inr r) = (if status_code r = 200 then (case body r of Inr doc \<Rightarrow> Some doc | Inl e \<Rightarrow> None) else None)"
| "succeeded (Inl e) = None"

fun reprimes :: "reply \<Rightarrow> bool" where
  "reprimes (Inl e) = True"
| "reprimes (Inr r) =
     (if status_code r = 200 then (case body r of Inr doc \<Rightarrow> False | Inl e \<Rightarrow> True)
      else status_code r = 401 \<or> status_code r = 403)"

definition warm_up :: "reply \<times> reply \<Rightarrow> io list" where
  "warm_up w =
     (case fst w of
        Inl e \<Rightarrow> [Get BASE 10]
      | Inr r \<Rightarrow> [Get BASE 10, Get (BASE @ ''/option-chain'') 10])"

definition failed_attempt :: "string \<Rightarrow> net \<Rightarrow> nat \<Rightarrow> io list" where
  "failed_attempt url env i =
     [Get url 12] @ (if reprimes (main env i) then warm_up (warm env i) else []) @ [Sleep (1 / 2)]"

text \<open>
  Every failure of the network is of the class \<^verbatim>\<open>requests.RequestException\<close>, as the
  library documents for \<^verbatim>\<open>Session.get\<close> and for \<^verbatim>\<open>Response.json\<close>.
\<close>

fun net_error :: "reply \<Rightarrow> bool" where
  "net_error (Inl e) = (e = RequestException)"
| "net_error (Inr r) = (case body r of Inl e \<Rightarrow> e = RequestException | Inr doc \<Rightarrow> True)"

definition network_only :: "net \<Rightarrow> bool" where
  "network_only env \<longleftrightarrow>
     (\<forall>i. net_error (main env i) \<and> net_error (fst (warm env i)) \<and> net_error (snd (warm env i)))"

text \<open>
  Two networks for concrete runs: one answers 403, then raises, then serves an empty
  document (its warm-up fails at the second re-priming); one answers 500 for ever.
\<close>

definition flaky_net :: net where
  "flaky_net =
     \<lparr>main = (\<lambda>i. if i = 0 then Inr \<lparr>status_code = 403, body = Inl RequestException\<rparr>
                  else if i = 1 then Inl RequestException
                  else Inr \<lparr>status_code = 200, body = Inr (JObj [])\<rparr>),
      warm = (\<lambda>i. if i = 1 then (Inl RequestException, Inl RequestException)
                  else (Inr \<lparr>status_code = 200, body = Inl RequestException\<rparr>,
                        Inr \<lparr>status_code = 200, body = Inl RequestException\<rparr>))\<rparr>"

definition down_net :: net where
  "down_net =
     \<lparr>main = (\<lambda>i. Inr \<lparr>status_code = 500, body = Inl RequestException\<rparr>),
      warm = (\<lambda>i. (Inl RequestException, Inl RequestException))\<rparr>"

section \<open>RealtimeSession\<close>

text \<open>
  \<^verbatim>\<open>_realtime_tasks\<close>, reduced to the flag it holds per session id, and the handlers that
  write it. \<^verbatim>\<open>handle_start_realtime\<close> replaces the record by a running one (and starts a
  loop); \<^verbatim>\<open>handle_stop_realtime\<close> clears the flag of a known session.
\<close>

type_synonym tasks = "string \<rightharpoonup> bool"

datatype command = Connect | Start_realtime | Stop_realtime | Disconnect

fun handle :: "string \<Rightarrow> command \<Rightarrow> tasks \<Rightarrow> tasks" where
  "handle sid Connect ts = ts(sid \<mapsto> False)"
| "handle sid Start_realtime ts = ts(sid \<mapsto> True)"
| "handle sid Stop_realtime ts = (if sid \<in> dom ts then ts(sid \<mapsto> False) else ts)"
| "handle sid Disconnect ts = (if sid \<in> dom ts then ts(sid := None) else ts)"

text \<open>\<^verbatim>\<open>int(data.get("interval") or 15)\<close> for an integer or absent interval.\<close>

definition interval_of :: "int option \<Rightarrow> int" where
  "interval_of v = (case v of None \<Rightarrow> 15 | Some n \<Rightarrow> if n = 0 then 15 else n)"

text \<open>
  What the loop does to the outside: a call of \<^verbatim>\<open>scan_symbols\<close>, a \<^verbatim>\<open>socketio.emit\<close> of the
  result, a \<^verbatim>\<open>time.sleep\<close>.
\<close>

datatype 'o act = Scan | Publish 'o | Pause int

text \<open>
  One turn of the loop as the outside decides it: what the scan gives, whether the emit
  goes through, and the commands of the session that the handlers process before the loop
  comes back to its check.
\<close>

record 'o turn =
  scanned :: "error + 'o"
  emit_ok :: bool
  arrivals :: "command list"

text \<open>
  \<^verbatim>\<open>_bg_loop\<close> (lines 877 to 887) over the turns of a script; the script's end is the end of
  the observation. The check reads \<^verbatim>\<open>_realtime_tasks.get(sid, {}).get("running")\<close>. The body
  scans and emits inside \<^verbatim>\<open>try\<close>; the \<^verbatim>\<open>time.sleep(max(1, interval))\<close> stands inside the
  \<^verbatim>\<open>except\<close> block, after the warning.
\<close>

fun bg_loop :: "string \<Rightarrow> int \<Rightarrow> 'o turn list \<Rightarrow> tasks \<Rightarrow> 'o act list" where
  "bg_loop sid interval [] ts = []"
| "bg_loop sid interval (t # script) ts =
     (if (case ts sid of None \<Rightarrow> False | Some running \<Rightarrow> running)
      then
        (case scanned t of
           Inl e \<Rightarrow> [Scan, Pause (max 1 interval)]
         | Inr out \<Rightarrow> if emit_ok t then [Scan, Publish out] else [Scan, Pause (max 1 interval)])
        @ bg_loop sid interval script (fold (handle sid) (arrivals t) ts)
      else [])"

section \<open>Properties of the sorts\<close>

lemma set_sort_desc: "set (sort_desc f xs) = set xs"
  by (simp add: sort_desc_def)

lemma sorted_sort_desc: "sorted_wrt (\<lambda>a b. f b \<le> f a) (sort_desc f xs)"
proof -
  have "sorted (map f (sort_key f (rev xs)))" by (rule sorted_sort_key)
  then have "sorted_wrt (\<lambda>a b. f a \<le> f b) (sort_key f (rev xs))"
    by (simp add: sorted_map)
  then show ?thesis
    by (simp add: sort_desc_def sorted_wrt_rev)
qed

lemma mset_py_sort: "permuting srt \<Longrightarrow> mset (py_sort srt lt ordered rank xs) = mset xs"
  by (simp add: py_sort_def permuting_def)

lemma set_py_sort: "permuting srt \<Longrightarrow> set (py_sort srt lt ordered rank xs) = set xs"
  using mset_py_sort[of srt lt ordered rank xs] by (metis set_mset_mset)

lemma sorted_py_sort:
  "list_all ordered xs \<Longrightarrow> sorted_wrt (\<lambda>a b. rank a \<le> rank b) (py_sort srt lt ordered rank xs)"
proof -
  assume "list_all ordered xs"
  then have "py_sort srt lt ordered rank xs = sort_key rank xs" by (simp add: py_sort_def)
  moreover have "sorted (map rank (sort_key rank xs))" by (rule sorted_sort_key)
  ultimately show ?thesis by (simp add: sorted_map)
qed

lemma set_py_sort_desc: "permuting srt \<Longrightarrow> set (py_sort_desc srt lt ordered rank xs) = set xs"
  by (simp add: py_sort_desc_def set_py_sort)

lemma sorted_py_sort_desc:
  "list_all ordered xs \<Longrightarrow>
     sorted_wrt (\<lambda>a b. rank b \<le> rank a) (py_sort_desc srt lt ordered rank xs)"
proof -
  assume "list_all ordered xs"
  then have "list_all ordered (rev xs)" by (simp add: list_all_iff)
  from sorted_py_sort[OF this, of rank srt lt] show ?thesis
    by (simp add: py_sort_desc_def sorted_wrt_rev)
qed

text \<open>The order of the numbers among the doubles.\<close>

lemma fle_iff: "\<not> is_nan a \<Longrightarrow> \<not> is_nan b \<Longrightarrow> fle a b \<longleftrightarrow> key_of a \<le> key_of b"
  by (simp add: fle_def)

lemma flt_iff: "\<not> is_nan a \<Longrightarrow> \<not> is_nan b \<Longrightarrow> flt a b \<longleftrightarrow> key_of a < key_of b"
  by (simp add: flt_def)

lemma key_of_inj: "\<not> is_nan a \<Longrightarrow> \<not> is_nan b \<Longrightarrow> key_of a = key_of b \<Longrightarrow> a = b"
  by (cases a; cases b) auto

lemma not_flt: "\<not> is_nan a \<Longrightarrow> \<not> is_nan b \<Longrightarrow> \<not> flt a b \<longleftrightarrow> fle b a"
  by (auto simp: flt_def fle_def)

lemma flt_not_nan: "flt a b \<Longrightarrow> \<not> is_nan a \<and> \<not> is_nan b"
  by (simp add: flt_def)

lemma flt_trans: "flt a b \<Longrightarrow> flt b c \<Longrightarrow> flt a c"
  by (auto simp: flt_def)

lemma flt_fle_trans: "flt a b \<Longrightarrow> fle b c \<Longrightarrow> flt a c"
  by (auto simp: flt_def fle_def)

lemma fle_refl: "\<not> is_nan a \<Longrightarrow> fle a a"
  by (simp add: fle_def)

section \<open>Properties of nearest\_strike\_iv\<close>

lemma distance_nan: "distance rd NaN und = NaN"
  by (simp add: distance_def fsub_def)

lemma reachable_strike:
  "reachable rd und sd r \<Longrightarrow> \<exists>k v. strike r = Some k \<and> iv_of sd r = Some v \<and> \<not> is_nan k"
proof -
  assume a: "reachable rd und sd r"
  then obtain k v where kv: "strike r = Some k" "iv_of sd r = Some v"
    by (auto simp: reachable_def usable_def)
  from a kv have "flt (distance rd k und) PInf" by (simp add: reachable_def gap_def)
  then have "\<not> is_nan k" using distance_nan[of rd und]
    by (cases k) (auto simp: flt_def)
  with kv show ?thesis by blast
qed

lemma nearest_scan_idle:
  "\<forall>r\<in>set rs. usable sd r \<longrightarrow> \<not> flt (gap rd und r) d0 \<Longrightarrow>
     nearest_scan rd und sd (b0, d0) rs = (b0, d0)"
  by (induction rs) (auto simp: usable_def gap_def Let_def split: option.splits)

lemma nearest_scan_spec:
  assumes "\<not> is_nan d0" "nearest_scan rd und sd (b0, d0) rs = (b, d)"
  shows "(b = b0 \<and> d = d0 \<and> (\<forall>r\<in>set rs. usable sd r \<longrightarrow> \<not> flt (gap rd und r) d0))
       \<or> (\<exists>pre best post. rs = pre @ best # post \<and> b = Some best \<and> usable sd best \<and>
             d = gap rd und best \<and> flt d d0 \<and>
             (\<forall>r\<in>set pre. usable sd r \<and> \<not> is_nan (gap rd und r) \<longrightarrow> flt d (gap rd und r)) \<and>
             (\<forall>r\<in>set post. usable sd r \<and> \<not> is_nan (gap rd und r) \<longrightarrow> fle d (gap rd und r)))"
  using assms
proof (induction rs arbitrary: b0 d0)
  case Nil
  then show ?case by simp
next
  case (Cons r rs)
  let ?g = "gap rd und r"
  show ?case
  proof (cases "usable sd r \<and> flt ?g d0")
    case take: True
    then obtain k v where kv: "strike r = Some k" "iv_of sd r = Some v"
      by (auto simp: usable_def)
    have g: "?g = distance rd k und" using kv by (simp add: gap_def)
    have gn: "\<not> is_nan ?g" using take by (simp add: flt_def)
    from Cons.prems(2) take kv g have run: "nearest_scan rd und sd (Some r, ?g) rs = (b, d)"
      by (simp add: Let_def)
    from Cons.IH[OF gn run] show ?thesis
    proof
      assume a: "b = Some r \<and> d = ?g \<and> (\<forall>x\<in>set rs. usable sd x \<longrightarrow> \<not> flt (gap rd und x) ?g)"
      then have "\<forall>x\<in>set rs. usable sd x \<and> \<not> is_nan (gap rd und x) \<longrightarrow> fle d (gap rd und x)"
        using gn by (auto simp: not_flt)
      moreover have "r # rs = [] @ r # rs" by simp
      ultimately show ?thesis using a take by (intro disjI2 exI[of _ "[]"] exI[of _ r] exI[of _ rs]) auto
    next
      assume "\<exists>pre best post. rs = pre @ best # post \<and> b = Some best \<and> usable sd best \<and>
             d = gap rd und best \<and> flt d ?g \<and>
             (\<forall>r\<in>set pre. usable sd r \<and> \<not> is_nan (gap rd und r) \<longrightarrow> flt d (gap rd und r)) \<and>
             (\<forall>r\<in>set post. usable sd r \<and> \<not> is_nan (gap rd und r) \<longrightarrow> fle d (gap rd und r))"
      then obtain pre best post where p: "rs = pre @ best # post" "b = Some best" "usable sd best"
        "d = gap rd und best" "flt d ?g"
        "\<forall>r\<in>set pre. usable sd r \<and> \<not> is_nan (gap rd und r) \<longrightarrow> flt d (gap rd und r)"
        "\<forall>r\<in>set post. usable sd r \<and> \<not> is_nan (gap rd und r) \<longrightarrow> fle d (gap rd und r)"
        by blast
      have "r # rs = (r # pre) @ best # post" using p(1) by simp
      moreover have "flt d d0" using p(5) take by (blast intro: flt_trans)
      moreover have "\<forall>x\<in>set (r # pre). usable sd x \<and> \<not> is_nan (gap rd und x) \<longrightarrow> flt d (gap rd und x)"
        using p(5,6) by simp
      ultimately show ?thesis using p(2,3,4,7) by blast
    qed
  next
    case keep: False
    have run: "nearest_scan rd und sd (b0, d0) rs = (b, d)"
      using Cons.prems(2) keep
      by (auto simp: usable_def gap_def Let_def split: option.splits)
    from Cons.IH[OF Cons.prems(1) run] show ?thesis
    proof
      assume "b = b0 \<and> d = d0 \<and> (\<forall>x\<in>set rs. usable sd x \<longrightarrow> \<not> flt (gap rd und x) d0)"
      with keep show ?thesis by auto
    next
      assume "\<exists>pre best post. rs = pre @ best # post \<and> b = Some best \<and> usable sd best \<and>
             d = gap rd und best \<and> flt d d0 \<and>
             (\<forall>r\<in>set pre. usable sd r \<and> \<not> is_nan (gap rd und r) \<longrightarrow> flt d (gap rd und r)) \<and>
             (\<forall>r\<in>set post. usable sd r \<and> \<not> is_nan (gap rd und r) \<longrightarrow> fle d (gap rd und r))"
      then obtain pre best post where p: "rs = pre @ best # post" "b = Some best" "usable sd best"
        "d = gap rd und best" "flt d d0"
        "\<forall>r\<in>set pre. usable sd r \<and> \<not> is_nan (gap rd und r) \<longrightarrow> flt d (gap rd und r)"
        "\<forall>r\<in>set post. usable sd r \<and> \<not> is_nan (gap rd und r) \<longrightarrow> fle d (gap rd und r)"
        by blast
      have "r # rs = (r # pre) @ best # post" using p(1) by simp
      moreover have "usable sd r \<and> \<not> is_nan ?g \<longrightarrow> flt d ?g"
      proof
        assume u: "usable sd r \<and> \<not> is_nan ?g"
        with keep have "\<not> flt ?g d0" by simp
        with u Cons.prems(1) have "fle d0 ?g" by (simp add: not_flt)
        with p(5) show "flt d ?g" by (rule flt_fle_trans)
      qed
      then have "\<forall>x\<in>set (r # pre). usable sd x \<and> \<not> is_nan (gap rd und x) \<longrightarrow> flt d (gap rd und x)"
        using p(6) by simp
      ultimately show ?thesis using p(2,3,4,5,7) by blast
    qed
  qed
qed


text \<open>
  Claim C7, as amended. A row counts when it has an IV for the side and a strike and its
  computed distance \<^verbatim>\<open>abs(strike - under)\<close> is a finite number. \<^verbatim>\<open>nearest_strike_iv\<close> returns
  undefined when no row counts. Otherwise it returns the strike and the IV of the first
  row, in list order, of least distance among the rows that count: every earlier one is
  strictly farther, every later one at least as far. On rows in ascending strike order the
  returned strike is the lowest among the rows that count at that distance.
\<close>

theorem nearest_strike_iv_minimal:
  "((\<forall>r\<in>set rows. \<not> reachable rd und sd r) \<longrightarrow>
      nearest_strike_iv rd rows und sd = (None, None)) \<and>
   ((\<exists>r\<in>set rows. reachable rd und sd r) \<longrightarrow>
      (\<exists>pre best post k v.
         rows = pre @ best # post \<and>
         nearest_strike_iv rd rows und sd = (Some k, Some v) \<and>
         strike best = Some k \<and> iv_of sd best = Some v \<and> reachable rd und sd best \<and>
         (\<forall>r\<in>set pre. reachable rd und sd r \<longrightarrow> flt (gap rd und best) (gap rd und r)) \<and>
         (\<forall>r\<in>set post. reachable rd und sd r \<longrightarrow> fle (gap rd und best) (gap rd und r)) \<and>
         (ascending rows \<longrightarrow>
            (\<forall>r\<in>set rows. reachable rd und sd r \<and> gap rd und r = gap rd und best \<longrightarrow>
               (\<exists>k'. strike r = Some k' \<and> fle k k')))))"
proof (intro conjI impI)
  assume none: "\<forall>r\<in>set rows. \<not> reachable rd und sd r"
  then have "\<forall>r\<in>set rows. usable sd r \<longrightarrow> \<not> flt (gap rd und r) PInf"
    by (auto simp: reachable_def)
  from nearest_scan_idle[OF this] show "nearest_strike_iv rd rows und sd = (None, None)"
    by (simp add: nearest_strike_iv_def)
next
  assume ex: "\<exists>r\<in>set rows. reachable rd und sd r"
  obtain b d where bd: "nearest_scan rd und sd (None, PInf) rows = (b, d)"
    by (cases "nearest_scan rd und sd (None, PInf) rows")
  have "\<not> is_nan PInf" by simp
  from nearest_scan_spec[OF this bd] ex obtain pre best post where
    p: "rows = pre @ best # post" "b = Some best" "usable sd best" "d = gap rd und best"
       "flt d PInf"
       "\<forall>r\<in>set pre. usable sd r \<and> \<not> is_nan (gap rd und r) \<longrightarrow> flt d (gap rd und r)"
       "\<forall>r\<in>set post. usable sd r \<and> \<not> is_nan (gap rd und r) \<longrightarrow> fle d (gap rd und r)"
    by (auto simp: reachable_def)
  have rb: "reachable rd und sd best" using p(3,4,5) by (simp add: reachable_def)
  from reachable_strike[OF rb] obtain k v where
    kv: "strike best = Some k" "iv_of sd best = Some v" "\<not> is_nan k" by blast
  have res: "nearest_strike_iv rd rows und sd = (Some k, Some v)"
    using bd p(2) kv by (simp add: nearest_strike_iv_def)
  have nn: "\<And>r. reachable rd und sd r \<Longrightarrow> usable sd r \<and> \<not> is_nan (gap rd und r)"
    by (auto simp: reachable_def flt_def)
  have before: "\<forall>r\<in>set pre. reachable rd und sd r \<longrightarrow> flt (gap rd und best) (gap rd und r)"
    using p(4,6) nn by blast
  have after: "\<forall>r\<in>set post. reachable rd und sd r \<longrightarrow> fle (gap rd und best) (gap rd und r)"
    using p(4,7) nn by blast
  have low: "ascending rows \<longrightarrow>
            (\<forall>r\<in>set rows. reachable rd und sd r \<and> gap rd und r = gap rd und best \<longrightarrow>
               (\<exists>k'. strike r = Some k' \<and> fle k k'))"
  proof (intro impI ballI)
    fix r
    assume asc: "ascending rows" and r: "r \<in> set rows"
      and u: "reachable rd und sd r \<and> gap rd und r = gap rd und best"
    from reachable_strike u obtain k' where k': "strike r = Some k'" by blast
    from r p(1) consider "r \<in> set pre" | "r = best" | "r \<in> set post" by auto
    then have "fle k k'"
    proof cases
      case 1
      with before u have "flt (gap rd und best) (gap rd und best)" by fastforce
      then show ?thesis by (simp add: flt_def)
    next
      case 2
      with kv k' show ?thesis by (simp add: fle_refl)
    next
      case 3
      from asc p(1) have "\<forall>y\<in>set post. strike_le best y"
        by (simp add: ascending_def sorted_wrt_append)
      with 3 have "strike_le best r" by blast
      with kv k' show ?thesis by (simp add: strike_le_def)
    qed
    with k' show "\<exists>k'. strike r = Some k' \<and> fle k k'" by blast
  qed
  show "\<exists>pre best post k v.
         rows = pre @ best # post \<and>
         nearest_strike_iv rd rows und sd = (Some k, Some v) \<and>
         strike best = Some k \<and> iv_of sd best = Some v \<and> reachable rd und sd best \<and>
         (\<forall>r\<in>set pre. reachable rd und sd r \<longrightarrow> flt (gap rd und best) (gap rd und r)) \<and>
         (\<forall>r\<in>set post. reachable rd und sd r \<longrightarrow> fle (gap rd und best) (gap rd und r)) \<and>
         (ascending rows \<longrightarrow>
            (\<forall>r\<in>set rows. reachable rd und sd r \<and> gap rd und r = gap rd und best \<longrightarrow>
               (\<exists>k'. strike r = Some k' \<and> fle k k')))"
    using p(1) res kv(1,2) rb before after low by blast
qed

text \<open>
  A chain without a CE IV, and strikes 90 and 110 at the same distance from 100.
\<close>

theorem nearest_strike_iv_minimal_witness:
  "\<not> reachable unrounded (Fin 100) CE (quote (Fin 90) None (Some (Fin 11)) None None) \<and>
   nearest_strike_iv unrounded [quote (Fin 90) None (Some (Fin 11)) None None] (Fin 100) CE
     = (None, None) \<and>
   reachable unrounded (Fin 100) CE (quote (Fin 90) (Some (Fin 12)) None None None) \<and>
   ascending [quote (Fin 90) (Some (Fin 12)) None None None,
              quote (Fin 110) (Some (Fin 15)) None None None] \<and>
   nearest_strike_iv unrounded
     [quote (Fin 90) (Some (Fin 12)) None None None,
      quote (Fin 110) (Some (Fin 15)) None None None] (Fin 100) CE
     = (Some (Fin 90), Some (Fin 12))"
  using nearest_strike_iv_minimal
      [of "[quote (Fin 90) None (Some (Fin 11)) None None]" unrounded "Fin 100" CE]
    nearest_strike_iv_minimal
      [of "[quote (Fin 90) (Some (Fin 12)) None None None,
            quote (Fin 110) (Some (Fin 15)) None None None]" unrounded "Fin 100" CE]
  by (simp add: reachable_def usable_def gap_def distance_def fsub_def unrounded_def flt_def
      fle_def quote_def ascending_def strike_le_def nearest_strike_iv_def)

text \<open>
  A row with an IV whose strike is NaN, or infinite, is never chosen: its distance is not
  below the initial \<^verbatim>\<open>float('inf')\<close>, and the result is undefined although the row has a
  usable IV.
\<close>

theorem nearest_strike_iv_nan_counterexample:
  "usable CE (quote NaN (Some (Fin 12)) None None None) \<and>
   nearest_strike_iv unrounded [quote NaN (Some (Fin 12)) None None None] (Fin 100) CE
     = (None, None) \<and>
   usable CE (quote PInf (Some (Fin 12)) None None None) \<and>
   nearest_strike_iv unrounded [quote PInf (Some (Fin 12)) None None None] (Fin 100) CE
     = (None, None)"
  by (simp add: usable_def distance_def fsub_def flt_def quote_def nearest_strike_iv_def)

section \<open>Properties of build\_hits\<close>

lemma collect_hits_side:
  "collect_hits rd sd atm_iv und thr rows = Inr hits \<Longrightarrow> h \<in> set hits \<Longrightarrow>
     (sd = CE \<longrightarrow> \<not> flt (h_strike h) und) \<and> (sd = PE \<longrightarrow> \<not> flt und (h_strike h))"
proof (induction rows arbitrary: hits)
  case Nil
  then show ?case by simp
next
  case (Cons r rs)
  then show ?case
    by (auto simp: Let_def split: option.splits if_splits sum.splits)
qed

lemma hit_rank_order:
  assumes "hit_numbers a" "hit_numbers b"
  shows "hit_rank b \<le> hit_rank a \<longleftrightarrow>
           flt (h_inc b) (h_inc a) \<or>
           (h_inc a = h_inc b \<and> fle (fabs (h_dist_pct a)) (fabs (h_dist_pct b)))"
proof -
  have n: "\<not> is_nan (h_inc a)" "\<not> is_nan (h_inc b)"
    "\<not> is_nan (h_dist_pct a)" "\<not> is_nan (h_dist_pct b)"
    using assms by (simp_all add: hit_numbers_def)
  have neg: "\<And>x y. \<not> is_nan x \<Longrightarrow> \<not> is_nan y \<Longrightarrow>
                key_of (fneg (fabs y)) \<le> key_of (fneg (fabs x)) \<longleftrightarrow> fle (fabs x) (fabs y)"
  proof -
    fix x y :: fl assume "\<not> is_nan x" "\<not> is_nan y"
    then show "key_of (fneg (fabs y)) \<le> key_of (fneg (fabs x)) \<longleftrightarrow> fle (fabs x) (fabs y)"
      by (cases x; cases y) (auto simp: fle_def less_eq_prod_def)
  qed
  have eq: "key_of (h_inc a) = key_of (h_inc b) \<longleftrightarrow> h_inc a = h_inc b"
    using n key_of_inj by auto
  show ?thesis
    using n neg[OF n(3) n(4)] eq
    by (auto simp: hit_rank_def hit_key_def less_eq_prod_def[of "(key_of (h_inc b), _)"] flt_def)
qed


text \<open>
  Claim C1, as amended. Whenever \<^verbatim>\<open>build_hits\<close> returns, no CE hit has a strike below the
  underlying and no PE hit a strike above it: where strike and underlying are numbers, a CE
  hit has strike \<open>\<ge>\<close> underlying and a PE hit strike \<open>\<le>\<close> underlying. When no hit holds a NaN
  increment or distance, the hits are ordered by increment descending, hits of equal
  increment by smaller distance percent first: the key is \<^verbatim>\<open>(inc, -abs(dist_pct))\<close> under
  \<^verbatim>\<open>reverse=True\<close>.
\<close>

theorem build_hits_sides_and_order:
  assumes "permuting srt" and "build_hits rd srt rows und thr sd atm_iv = Inr hits"
  shows "(\<forall>h\<in>set hits. (sd = CE \<longrightarrow> \<not> flt (h_strike h) und) \<and>
                       (sd = PE \<longrightarrow> \<not> flt und (h_strike h))) \<and>
         (\<forall>h\<in>set hits. \<not> is_nan (h_strike h) \<and> \<not> is_nan und \<longrightarrow>
                       (sd = CE \<longrightarrow> fle und (h_strike h)) \<and> (sd = PE \<longrightarrow> fle (h_strike h) und)) \<and>
         ((\<forall>h\<in>set hits. hit_numbers h) \<longrightarrow>
            sorted_wrt (\<lambda>a b. flt (h_inc b) (h_inc a) \<or>
                          (h_inc a = h_inc b \<and> fle (fabs (h_dist_pct a)) (fabs (h_dist_pct b))))
              hits)"
proof (cases atm_iv)
  case None
  with assms show ?thesis by (simp add: build_hits_def)
next
  case (Some c)
  with assms(2) obtain hs where hs: "collect_hits rd sd c und thr rows = Inr hs"
    and hits: "hits = py_sort_desc srt hit_lt hit_numbers hit_rank hs"
    by (auto simp: build_hits_def split: sum.splits)
  have same: "set hits = set hs" unfolding hits by (rule set_py_sort_desc[OF assms(1)])
  have side: "\<forall>h\<in>set hits. (sd = CE \<longrightarrow> \<not> flt (h_strike h) und) \<and>
                       (sd = PE \<longrightarrow> \<not> flt und (h_strike h))"
    using collect_hits_side[OF hs] same by blast
  then have side': "\<forall>h\<in>set hits. \<not> is_nan (h_strike h) \<and> \<not> is_nan und \<longrightarrow>
                       (sd = CE \<longrightarrow> fle und (h_strike h)) \<and> (sd = PE \<longrightarrow> fle (h_strike h) und)"
    by (auto simp: not_flt)
  have order: "sorted_wrt (\<lambda>a b. flt (h_inc b) (h_inc a) \<or>
                          (h_inc a = h_inc b \<and> fle (fabs (h_dist_pct a)) (fabs (h_dist_pct b))))
              hits"
    if num: "\<forall>h\<in>set hits. hit_numbers h"
  proof -
    from num same have "list_all hit_numbers hs" by (simp add: list_all_iff)
    from sorted_py_sort_desc[OF this, of hit_rank srt hit_lt]
    have "sorted_wrt (\<lambda>a b. hit_rank b \<le> hit_rank a) hits" by (simp add: hits)
    moreover have "\<And>a b. a \<in> set hits \<Longrightarrow> b \<in> set hits \<Longrightarrow> hit_rank b \<le> hit_rank a \<Longrightarrow>
            flt (h_inc b) (h_inc a) \<or>
            (h_inc a = h_inc b \<and> fle (fabs (h_dist_pct a)) (fabs (h_dist_pct b)))"
      using num hit_rank_order by blast
    ultimately show ?thesis
      using sorted_wrt_mono_rel[of hits "\<lambda>a b. hit_rank b \<le> hit_rank a"
          "\<lambda>a b. flt (h_inc b) (h_inc a) \<or>
                 (h_inc a = h_inc b \<and> fle (fabs (h_dist_pct a)) (fabs (h_dist_pct b)))"]
      by blast
  qed
  from side side' order show ?thesis by blast
qed

text \<open>
  The theorem on the ascending chain of strikes 90, 100, 110, 120 around an underlying of 100.
\<close>

theorem build_hits_sides_and_order_witness:
  "permuting (\<lambda>xs :: hit list. xs) \<and>
   build_hits unrounded (\<lambda>xs. xs)
     [quote (Fin 90) (Some (Fin 50)) None None None, quote (Fin 100) (Some (Fin 20)) None None None,
      quote (Fin 110) (Some (Fin 20)) None None None, quote (Fin 120) (Some (Fin 30)) None None None] (Fin 100) (Fin 5) CE (Some (Fin 10))
   = Inr [\<lparr>h_strike = Fin 120, h_iv = Fin 30, h_ltp = None, h_inc = Fin 20, h_dist_pct = Fin 20\<rparr>,
          \<lparr>h_strike = Fin 100, h_iv = Fin 20, h_ltp = None, h_inc = Fin 10, h_dist_pct = Fin 0\<rparr>,
          \<lparr>h_strike = Fin 110, h_iv = Fin 20, h_ltp = None, h_inc = Fin 10, h_dist_pct = Fin 10\<rparr>] \<and>
   sorted_wrt (\<lambda>a b. flt (h_inc b) (h_inc a) \<or>
                 (h_inc a = h_inc b \<and> fle (fabs (h_dist_pct a)) (fabs (h_dist_pct b))))
     [\<lparr>h_strike = Fin 120, h_iv = Fin 30, h_ltp = None, h_inc = Fin 20, h_dist_pct = Fin 20\<rparr>,
          \<lparr>h_strike = Fin 100, h_iv = Fin 20, h_ltp = None, h_inc = Fin 10, h_dist_pct = Fin 0\<rparr>,
          \<lparr>h_strike = Fin 110, h_iv = Fin 20, h_ltp = None, h_inc = Fin 10, h_dist_pct = Fin 10\<rparr>]"
  using build_hits_sides_and_order
    [of "\<lambda>xs. xs" unrounded
        "[quote (Fin 90) (Some (Fin 50)) None None None, quote (Fin 100) (Some (Fin 20)) None None None,
      quote (Fin 110) (Some (Fin 20)) None None None, quote (Fin 120) (Some (Fin 30)) None None None]" "Fin 100" "Fin 5" CE "Some (Fin 10)"
        "[\<lparr>h_strike = Fin 120, h_iv = Fin 30, h_ltp = None, h_inc = Fin 20, h_dist_pct = Fin 20\<rparr>,
          \<lparr>h_strike = Fin 100, h_iv = Fin 20, h_ltp = None, h_inc = Fin 10, h_dist_pct = Fin 0\<rparr>,
          \<lparr>h_strike = Fin 110, h_iv = Fin 20, h_ltp = None, h_inc = Fin 10, h_dist_pct = Fin 10\<rparr>]"]
  by (simp add: permuting_def build_hits_def quote_def py_sort_desc_def py_sort_def hit_numbers_def
      hit_rank_def hit_key_def less_eq_prod_def Let_def py_round_def py_div_def distance_def
      fsub_def unrounded_def flt_def fle_def feq_def)

text \<open>
  The claim as first stated fails twice. On the ascending chain, strikes 100 and 110 both
  have increment 10, and strike 100, at distance 0, comes before strike 110, at distance 10:
  the nearer strike first, not the farther. And a row whose strike is NaN passes the filter
  \<^verbatim>\<open>strike < under\<close> and is returned as a CE hit, with a strike that is not \<open>\<ge>\<close> the underlying.
\<close>

theorem build_hits_order_counterexample:
  "build_hits unrounded (\<lambda>xs. xs)
     [quote (Fin 90) (Some (Fin 50)) None None None, quote (Fin 100) (Some (Fin 20)) None None None,
      quote (Fin 110) (Some (Fin 20)) None None None, quote (Fin 120) (Some (Fin 30)) None None None] (Fin 100) (Fin 5) CE (Some (Fin 10))
   = Inr [\<lparr>h_strike = Fin 120, h_iv = Fin 30, h_ltp = None, h_inc = Fin 20, h_dist_pct = Fin 20\<rparr>,
          \<lparr>h_strike = Fin 100, h_iv = Fin 20, h_ltp = None, h_inc = Fin 10, h_dist_pct = Fin 0\<rparr>,
          \<lparr>h_strike = Fin 110, h_iv = Fin 20, h_ltp = None, h_inc = Fin 10, h_dist_pct = Fin 10\<rparr>] \<and>
   build_hits unrounded (\<lambda>xs. xs)
     [quote NaN (Some (Fin 20)) None None None, quote (Fin 100) (Some (Fin 10)) None None None]
     (Fin 100) (Fin 5) CE (Some (Fin 10))
   = Inr [\<lparr>h_strike = NaN, h_iv = Fin 20, h_ltp = None, h_inc = Fin 10, h_dist_pct = NaN\<rparr>]"
  by (simp add: build_hits_def quote_def py_sort_desc_def py_sort_def hit_numbers_def
      hit_rank_def hit_key_def less_eq_prod_def Let_def py_round_def py_div_def distance_def
      fsub_def unrounded_def flt_def fle_def feq_def)

section \<open>Properties of the Normalizer\<close>

lemma and_then_Inr: "and_then m f = Inr y \<longleftrightarrow> (\<exists>x. m = Inr x \<and> f x = Inr y)"
  by (cases m) auto

lemma parse_rows_shape:
  assumes "parse_rows rd pf srt oc_json chosen = Inr snap"
  shows "s_rows snap = [] \<or>
         (\<exists>rows. s_rows snap = py_sort srt strike_lt strike_number strike_key
                                  (filter (\<lambda>r. strike r \<noteq> None) rows))"
  using assms
  by (auto simp: parse_rows_def Let_def and_then_Inr split: if_splits)


lemma ascending_by_key:
  assumes "sorted_wrt (\<lambda>a b. strike_key a \<le> strike_key b) rows"
    and "\<forall>r\<in>set rows. strike_number r"
  shows "ascending rows"
proof -
  have "\<And>r r'. r \<in> set rows \<Longrightarrow> r' \<in> set rows \<Longrightarrow>
          strike_key r \<le> strike_key r' \<Longrightarrow> strike_le r r'"
    using assms(2)
    by (auto simp: strike_le_def strike_key_def strike_number_def fle_def split: option.splits)
  with assms(1) have "sorted_wrt strike_le rows"
    using sorted_wrt_mono_rel[of rows "\<lambda>a b. strike_key a \<le> strike_key b" strike_le]
    by blast
  then show ?thesis by (simp add: ascending_def)
qed

text \<open>
  Claim C8, as amended. Whenever \<^verbatim>\<open>parse_rows\<close> returns, every row of the snapshot has a
  strike, and when no strike is NaN the rows are in non-decreasing strike order (stated on
  the sort keys and as the predicate \<^const>\<open>ascending\<close> that the nearest-strike scan relies
  on). A document that is falsy, or in which \<^verbatim>\<open>"records"\<close> does not occur, yields the empty
  snapshot.
\<close>

theorem parse_rows_snapshot:
  assumes "permuting srt"
  shows
  "(parse_rows rd pf srt oc_json chosen = Inr snap \<longrightarrow>
      (\<forall>r\<in>set (s_rows snap). \<exists>k. strike r = Some k) \<and>
      ((\<forall>r\<in>set (s_rows snap). strike r \<noteq> Some NaN) \<longrightarrow>
         sorted (map strike_key (s_rows snap)) \<and> ascending (s_rows snap))) \<and>
   (\<not> py_truthy oc_json \<or> py_in ''records'' oc_json = Inr False \<longrightarrow>
      parse_rows rd pf srt oc_json chosen
      = Inr \<lparr>s_rows = [], s_expiries = JArr [], s_underlying = None, s_symbol_name = JNull\<rparr>)"
proof -
  have first: "(\<forall>r\<in>set (s_rows snap). \<exists>k. strike r = Some k) \<and>
      ((\<forall>r\<in>set (s_rows snap). strike r \<noteq> Some NaN) \<longrightarrow>
         sorted (map strike_key (s_rows snap)) \<and> ascending (s_rows snap))"
    if ok: "parse_rows rd pf srt oc_json chosen = Inr snap"
  proof -
    from parse_rows_shape[OF ok] consider "s_rows snap = []"
      | rows where "s_rows snap = py_sort srt strike_lt strike_number strike_key
                                    (filter (\<lambda>r. strike r \<noteq> None) rows)"
      by blast
    then show ?thesis
    proof cases
      case 1
      then show ?thesis by (simp add: ascending_def)
    next
      case 2
      let ?xs = "filter (\<lambda>r. strike r \<noteq> None) rows"
      have same: "set (s_rows snap) = set ?xs"
        unfolding 2 by (rule set_py_sort[OF assms])
      then have some: "\<forall>r\<in>set (s_rows snap). \<exists>k. strike r = Some k" by auto
      have order: "sorted (map strike_key (s_rows snap)) \<and> ascending (s_rows snap)"
        if nn: "\<forall>r\<in>set (s_rows snap). strike r \<noteq> Some NaN"
      proof -
        have num: "\<forall>r\<in>set (s_rows snap). strike_number r"
        proof
          fix r assume r: "r \<in> set (s_rows snap)"
          with some obtain k where k: "strike r = Some k" by blast
          with nn r have "k \<noteq> NaN" by auto
          then have "\<not> is_nan k" by (cases k) auto
          with k show "strike_number r" by (simp add: strike_number_def)
        qed
        with same have "list_all strike_number ?xs" by (simp add: list_all_iff)
        from sorted_py_sort[OF this, of strike_key srt strike_lt]
        have s: "sorted_wrt (\<lambda>a b. strike_key a \<le> strike_key b) (s_rows snap)"
          by (simp add: 2)
        then have "sorted (map strike_key (s_rows snap))" by (simp add: sorted_map)
        with ascending_by_key[OF s num] show ?thesis by simp
      qed
      from some order show ?thesis by blast
    qed
  qed
  have second: "parse_rows rd pf srt oc_json chosen
      = Inr \<lparr>s_rows = [], s_expiries = JArr [], s_underlying = None, s_symbol_name = JNull\<rparr>"
    if "\<not> py_truthy oc_json \<or> py_in ''records'' oc_json = Inr False"
    using that by (auto simp: parse_rows_def Let_def)
  from first second show ?thesis by blast
qed

text \<open>
  The claim as first stated fails. A malformed top level can raise: \<^verbatim>\<open>{"records": null}\<close>
  passes the guard and fails at \<^verbatim>\<open>rec.get\<close>; the document \<^verbatim>\<open>5\<close> fails inside the guard, at
  \<^verbatim>\<open>"records" not in 5\<close>. And a NaN strike is kept (it is not \<^verbatim>\<open>None\<close>) and leaves the rows
  out of order: the strikes 2, NaN, 1 come back as they were.
\<close>

theorem parse_rows_malformed_counterexample:
  "parse_rows unrounded (\<lambda>s. None) (\<lambda>xs. xs) (JObj [(''records'', JNull)]) None
     = Inl AttributeError \<and>
   parse_rows unrounded (\<lambda>s. None) (\<lambda>xs. xs) (JInt 5) None = Inl TypeError \<and>
   map_sum id (\<lambda>snap. map strike (s_rows snap))
     (parse_rows unrounded (\<lambda>s. None) (\<lambda>xs. xs)
        (JObj [(''records'', JObj [(''underlyingValue'', JInt 100),
           (''data'', JArr
              [JObj [(''strikePrice'', JInt 2)],
               JObj [(''strikePrice'', JFloat NaN)],
               JObj [(''strikePrice'', JInt 1)]])])]) None)
     = Inr [Some (Fin 2), Some NaN, Some (Fin 1)]"
  by (simp add: parse_rows_def parse_item_def float_at_def volume_at_def py_or_def py_sort_def
      strike_number_def strike_lt_def flt_def unrounded_def Let_def)

text \<open>
  A chain of four entries filtered to expiry \<^verbatim>\<open>a\<close>: the entry of the other expiry and the one
  with an unreadable strike are dropped, the rest sorted. A document without \<^verbatim>\<open>"records"\<close>
  and the document \<^verbatim>\<open>null\<close> give the empty snapshot.
\<close>

theorem parse_rows_snapshot_witness:
  "permuting (\<lambda>xs :: fl row list. xs) \<and>
   parse_rows unrounded (\<lambda>s. None) (\<lambda>xs. xs)
     (JObj [(''records'', JObj [(''underlyingValue'', JInt 100),
        (''expiryDates'', JArr [JStr ''a'']),
        (''data'', JArr
           [JObj [(''strikePrice'', JInt 110), (''expiryDate'', JStr ''a''),
                  (''CE'', JObj [(''lastPrice'', JInt 3)])],
            JObj [(''strikePrice'', JStr ''x''), (''expiryDate'', JStr ''a'')],
            JObj [(''strikePrice'', JInt 90), (''expiryDate'', JStr ''b'')],
            JObj [(''strikePrice'', JInt 100), (''expiryDate'', JStr ''a'')]])])])
     (Some ''a'')
   = Inr \<lparr>s_rows =
        [\<lparr>symbol = JNull, underlying = Some (Fin 100), expiry = JStr ''a'',
            strike = Some (Fin 100), CE_iv = None, PE_iv = None, CE_ltp = None,
            PE_ltp = None, CE_vol = None, PE_vol = None\<rparr>,
         \<lparr>symbol = JNull, underlying = Some (Fin 100), expiry = JStr ''a'',
            strike = Some (Fin 110), CE_iv = None, PE_iv = None, CE_ltp = Some (Fin 3),
            PE_ltp = None, CE_vol = None, PE_vol = None\<rparr>],
        s_expiries = JArr [JStr ''a''], s_underlying = Some (Fin 100),
        s_symbol_name = JNull\<rparr> \<and>
   py_in ''records'' (JObj [(''message'', JStr ''no data'')]) = Inr False \<and>
   parse_rows unrounded (\<lambda>s. None) (\<lambda>xs. xs) (JObj [(''message'', JStr ''no data'')]) None
   = Inr \<lparr>s_rows = [], s_expiries = JArr [], s_underlying = None, s_symbol_name = JNull\<rparr> \<and>
   \<not> py_truthy JNull \<and>
   parse_rows unrounded (\<lambda>s. None) (\<lambda>xs. xs) JNull None
   = Inr \<lparr>s_rows = [], s_expiries = JArr [], s_underlying = None, s_symbol_name = JNull\<rparr>"
proof -
  have p: "permuting (\<lambda>xs :: fl row list. xs)" by (simp add: permuting_def)
  show ?thesis
    using p parse_rows_snapshot [OF p, of unrounded "\<lambda>s. None" "JObj [(''message'', JStr ''no data'')]" None]
      parse_rows_snapshot [OF p, of unrounded "\<lambda>s. None" JNull None]
    by (simp add: parse_rows_def parse_item_def float_at_def volume_at_def py_or_def py_sort_def
        strike_number_def strike_key_def less_eq_prod_def unrounded_def Let_def)
qed

section \<open>Properties of get\_straddle\_info\<close>

lemma find_app:
  "find P (xs @ ys) = (case find P xs of None \<Rightarrow> find P ys | Some x \<Rightarrow> Some x)"
  by (induction xs) auto

lemma pick_legs_find:
  "pick_legs atm (ce, pe) rows =
     (case leg CE atm rows of None \<Rightarrow> ce | Some c \<Rightarrow> Some c,
      case leg PE atm rows of None \<Rightarrow> pe | Some p \<Rightarrow> Some p)"
  by (induction rows arbitrary: ce pe) (auto simp: leg_def find_app split: option.splits)

lemma leg_None_iff:
  "leg sd atm rows = None \<longleftrightarrow>
     (\<forall>r\<in>set rows. same_strike (strike r) atm \<longrightarrow> \<not> truthy (ltp_of sd r))"
  by (auto simp: leg_def find_None_iff)

lemma leg_truthy: "leg sd atm rows = Some c \<Longrightarrow> truthy (ltp_of sd c)"
  by (auto simp: leg_def find_Some_iff)

lemma truthy_Some: "truthy v \<Longrightarrow> \<exists>x. v = Some x \<and> x \<noteq> Fin 0"
  by (cases v) auto

text \<open>
  Claim C6, as amended. At the resolved ATM strike, when no row has a present non-zero CE LTP
  or no row has a present non-zero PE LTP (an LTP of 0 counts as missing),
  \<^verbatim>\<open>get_straddle_info\<close> returns the fully undefined result. Otherwise, when the IVs of both
  legs are present, it returns \<^verbatim>\<open>round(ce_ltp + pe_ltp, 2)\<close>, the float sum of the two LTPs
  rounded to 2 decimals, \<^verbatim>\<open>round((ce_iv + pe_iv) / 2, 2)\<close>, the float mean of the two IVs
  rounded to 2 decimals, the ATM strike and the label.
\<close>

theorem get_straddle_info_legs:
  assumes "rows \<noteq> []" and "resolve_atm rd und rows = Inr atm"
  shows "(leg CE atm rows = None \<or> leg PE atm rows = None \<longrightarrow>
            get_straddle_info rd rows (Some und) = Inr (None, None, None, None)) \<and>
         (\<forall>c p ci pi.
            leg CE atm rows = Some c \<and> leg PE atm rows = Some p \<and>
            CE_iv c = Some ci \<and> PE_iv p = Some pi \<longrightarrow>
            (\<exists>cl pl. CE_ltp c = Some cl \<and> PE_ltp p = Some pl \<and>
               get_straddle_info rd rows (Some und) =
                 Inr (Some (fround rd 2 (fadd rd cl pl)),
                      Some (fround rd 2 (fdiv rd (fadd rd ci pi) (Fin 2))),
                      atm, Some (CE_plus_PE atm))))"
proof (intro conjI impI allI)
  assume "leg CE atm rows = None \<or> leg PE atm rows = None"
  then show "get_straddle_info rd rows (Some und) = Inr (None, None, None, None)"
    using assms by (auto simp: get_straddle_info_def pick_legs_find split: option.splits)
next
  fix c p ci pi
  assume h: "leg CE atm rows = Some c \<and> leg PE atm rows = Some p \<and>
            CE_iv c = Some ci \<and> PE_iv p = Some pi"
  then have "truthy (ltp_of CE c)" "truthy (ltp_of PE p)"
    by (auto dest: leg_truthy)
  then obtain cl pl where l: "CE_ltp c = Some cl" "PE_ltp p = Some pl"
    by (auto dest!: truthy_Some)
  have "get_straddle_info rd rows (Some und) =
          Inr (Some (fround rd 2 (fadd rd cl pl)),
               Some (fround rd 2 (fdiv rd (fadd rd ci pi) (Fin 2))),
               atm, Some (CE_plus_PE atm))"
    using assms h l by (simp add: get_straddle_info_def pick_legs_find)
  with l show "\<exists>cl pl. CE_ltp c = Some cl \<and> PE_ltp p = Some pl \<and>
               get_straddle_info rd rows (Some und) =
                 Inr (Some (fround rd 2 (fadd rd cl pl)),
                      Some (fround rd 2 (fdiv rd (fadd rd ci pi) (Fin 2))),
                      atm, Some (CE_plus_PE atm))" by blast
qed


text \<open>
  The theorem at two chains: one without a PE quote, one with both legs (5.5 + 7 = 12.5).
\<close>

theorem get_straddle_info_legs_witness:
  "[quote (Fin 100) (Some (Fin 20)) (Some (Fin 22)) (Some (Fin 5)) None] \<noteq> [] \<and>
   resolve_atm unrounded (Fin 100) [quote (Fin 100) (Some (Fin 20)) (Some (Fin 22)) (Some (Fin 5)) None]
     = Inr (Some (Fin 100)) \<and>
   leg PE (Some (Fin 100)) [quote (Fin 100) (Some (Fin 20)) (Some (Fin 22)) (Some (Fin 5)) None]
     = None \<and>
   get_straddle_info unrounded
       [quote (Fin 100) (Some (Fin 20)) (Some (Fin 22)) (Some (Fin 5)) None] (Some (Fin 100))
     = Inr (None, None, None, None) \<and>
   resolve_atm unrounded (Fin 103)
       [quote (Fin 100) (Some (Fin 20)) (Some (Fin 22)) (Some (Fin (11 / 2))) (Some (Fin 7)),
        quote (Fin 110) None None None None]
     = Inr (Some (Fin 100)) \<and>
   leg CE (Some (Fin 100))
       [quote (Fin 100) (Some (Fin 20)) (Some (Fin 22)) (Some (Fin (11 / 2))) (Some (Fin 7)),
        quote (Fin 110) None None None None]
     = Some (quote (Fin 100) (Some (Fin 20)) (Some (Fin 22)) (Some (Fin (11 / 2))) (Some (Fin 7))) \<and>
   leg PE (Some (Fin 100))
       [quote (Fin 100) (Some (Fin 20)) (Some (Fin 22)) (Some (Fin (11 / 2))) (Some (Fin 7)),
        quote (Fin 110) None None None None]
     = Some (quote (Fin 100) (Some (Fin 20)) (Some (Fin 22)) (Some (Fin (11 / 2))) (Some (Fin 7))) \<and>
   get_straddle_info unrounded
       [quote (Fin 100) (Some (Fin 20)) (Some (Fin 22)) (Some (Fin (11 / 2))) (Some (Fin 7)),
        quote (Fin 110) None None None None]
       (Some (Fin 103))
     = Inr (Some (Fin (25 / 2)), Some (Fin 21), Some (Fin 100), Some (CE_plus_PE (Some (Fin 100))))"
  using get_straddle_info_legs
      [of "[quote (Fin 100) (Some (Fin 20)) (Some (Fin 22)) (Some (Fin 5)) None]"
          unrounded "Fin 100" "Some (Fin 100)"]
    get_straddle_info_legs
      [of "[quote (Fin 100) (Some (Fin 20)) (Some (Fin 22)) (Some (Fin (11 / 2))) (Some (Fin 7)),
            quote (Fin 110) None None None None]"
          unrounded "Fin 103" "Some (Fin 100)"]
  by (simp add: quote_def resolve_atm_def leg_def get_straddle_info_def py_round_def Let_def
      distance_def fsub_def unrounded_def flt_def feq_def)

text \<open>
  The claim as first stated fails: with both LTPs present (the PE one equal to 0) the result
  is undefined rather than a price, and with both LTPs present and non-zero but no PE IV the
  function raises.
\<close>

theorem get_straddle_info_counterexample:
  "CE_ltp (quote (Fin 100) (Some (Fin 20)) (Some (Fin 22)) (Some (Fin 5)) (Some (Fin 0)))
     = Some (Fin 5) \<and>
   PE_ltp (quote (Fin 100) (Some (Fin 20)) (Some (Fin 22)) (Some (Fin 5)) (Some (Fin 0)))
     = Some (Fin 0) \<and>
   get_straddle_info unrounded
       [quote (Fin 100) (Some (Fin 20)) (Some (Fin 22)) (Some (Fin 5)) (Some (Fin 0))]
       (Some (Fin 100))
     = Inr (None, None, None, None) \<and>
   CE_ltp (quote (Fin 100) (Some (Fin 20)) None (Some (Fin 5)) (Some (Fin 7))) = Some (Fin 5) \<and>
   PE_ltp (quote (Fin 100) (Some (Fin 20)) None (Some (Fin 5)) (Some (Fin 7))) = Some (Fin 7) \<and>
   get_straddle_info unrounded
       [quote (Fin 100) (Some (Fin 20)) None (Some (Fin 5)) (Some (Fin 7))] (Some (Fin 100))
     = Inl TypeError"
  by (simp add: quote_def resolve_atm_def get_straddle_info_def distance_def fsub_def
      unrounded_def flt_def feq_def)

lemma resolve_atm_single:
  "strike r = Some k \<Longrightarrow> resolve_atm rd und [r] = Inr (Some k)"
  by (simp add: resolve_atm_def)

lemma same_strike_eq: "same_strike a b \<Longrightarrow> a = b"
  by (cases a; cases b) (auto simp: feq_def)

text \<open>
  Claim C10. There is a chain in which both legs at the resolved ATM strike have a present
  non-zero LTP and one leg has no IV, on which \<^verbatim>\<open>get_straddle_info\<close> raises a
  \<^verbatim>\<open>TypeError\<close>. And when the LTP of one side is present but equal to 0 in every row at the
  resolved ATM strike, the result is the fully undefined one.
\<close>

theorem get_straddle_info_raises:
  "(\<exists>rows und atm c p cl pl.
      resolve_atm rd und rows = Inr atm \<and> leg CE atm rows = Some c \<and> leg PE atm rows = Some p \<and>
      CE_ltp c = Some cl \<and> cl \<noteq> Fin 0 \<and> PE_ltp p = Some pl \<and> pl \<noteq> Fin 0 \<and>
      (CE_iv c = None \<or> PE_iv p = None) \<and>
      get_straddle_info rd rows (Some und) = Inl TypeError) \<and>
   (\<forall>rows und atm sd.
      rows \<noteq> [] \<and> resolve_atm rd und rows = Inr atm \<and>
      (\<exists>r\<in>set rows. strike r = atm) \<and>
      (\<forall>r\<in>set rows. strike r = atm \<longrightarrow> ltp_of sd r = Some (Fin 0)) \<longrightarrow>
      get_straddle_info rd rows (Some und) = Inr (None, None, None, None))"
proof (intro conjI allI impI)
  let ?r = "quote (Fin 100) (Some (Fin 20)) None (Some (Fin 5)) (Some (Fin 7))"
  have a: "resolve_atm rd (Fin 100) [?r] = Inr (Some (Fin 100))"
    by (rule resolve_atm_single) (simp add: quote_def)
  have "leg CE (Some (Fin 100)) [?r] = Some ?r \<and>
        leg PE (Some (Fin 100)) [?r] = Some ?r \<and> CE_ltp ?r = Some (Fin 5) \<and> Fin 5 \<noteq> Fin 0 \<and>
        PE_ltp ?r = Some (Fin 7) \<and> Fin 7 \<noteq> Fin 0 \<and> (CE_iv ?r = None \<or> PE_iv ?r = None)"
    by (simp add: quote_def leg_def feq_def)
  moreover from this have "get_straddle_info rd [?r] (Some (Fin 100)) = Inl TypeError"
    by (simp add: get_straddle_info_def a pick_legs_find) (simp add: quote_def)
  ultimately show "\<exists>rows und atm c p cl pl.
      resolve_atm rd und rows = Inr atm \<and> leg CE atm rows = Some c \<and> leg PE atm rows = Some p \<and>
      CE_ltp c = Some cl \<and> cl \<noteq> Fin 0 \<and> PE_ltp p = Some pl \<and> pl \<noteq> Fin 0 \<and>
      (CE_iv c = None \<or> PE_iv p = None) \<and>
      get_straddle_info rd rows (Some und) = Inl TypeError"
    using a by blast
next
  fix rows und atm sd
  assume h: "rows \<noteq> [] \<and> resolve_atm rd und rows = Inr atm \<and>
      (\<exists>r\<in>set rows. strike r = atm) \<and>
      (\<forall>r\<in>set rows. strike r = atm \<longrightarrow> ltp_of sd r = Some (Fin 0))"
  then have "leg sd atm rows = None"
    by (auto simp: leg_None_iff dest: same_strike_eq)
  then have "leg CE atm rows = None \<or> leg PE atm rows = None" by (cases sd) auto
  then show "get_straddle_info rd rows (Some und) = Inr (None, None, None, None)"
    using h by (auto simp: get_straddle_info_def pick_legs_find split: option.splits)
qed

text \<open>
  The second part at a chain whose PE LTP is 0.
\<close>

theorem get_straddle_info_raises_witness:
  "[quote (Fin 100) (Some (Fin 20)) (Some (Fin 22)) (Some (Fin 5)) (Some (Fin 0))] \<noteq> [] \<and>
   resolve_atm unrounded (Fin 100)
       [quote (Fin 100) (Some (Fin 20)) (Some (Fin 22)) (Some (Fin 5)) (Some (Fin 0))]
     = Inr (Some (Fin 100)) \<and>
   strike (quote (Fin 100) (Some (Fin 20)) (Some (Fin 22)) (Some (Fin 5)) (Some (Fin 0)))
     = Some (Fin 100) \<and>
   ltp_of PE (quote (Fin 100) (Some (Fin 20)) (Some (Fin 22)) (Some (Fin 5)) (Some (Fin 0)))
     = Some (Fin 0) \<and>
   get_straddle_info unrounded
       [quote (Fin 100) (Some (Fin 20)) (Some (Fin 22)) (Some (Fin 5)) (Some (Fin 0))]
       (Some (Fin 100))
     = Inr (None, None, None, None)"
  using get_straddle_info_raises [of unrounded]
  by (simp add: quote_def resolve_atm_def get_straddle_info_def distance_def fsub_def
      unrounded_def flt_def feq_def)


section \<open>Properties of the SurgeDetector\<close>



















text \<open>
  Claim C3. Four scans store the CE prices 10, 1, 1, 1 of a strike; on the fifth scan, at a
  price of 2, the code divides by \<^verbatim>\<open>cache[side][0]\<close>, the oldest stored price 10, and the
  event it emits carries a speed of -80. The oldest of the last three prices is 1, for which
  the claimed formula gives 100.
\<close>

theorem surge_speed_oldest_stored:
  "surge_speed [10, 1, 1, 1] 2 = Inr (- 80) \<and>
   map_option (\<lambda>sc. map_option hist_CE (sc 1050))
     (surge_requests (map tick [10, 1, 1, 1]) Map.empty (''X'', None))
     = Some (Some [10, 1, 1, 1]) \<and>
   snd (surge_request 100 (snd (tick 2)) (surge_requests (map tick [10, 1, 1, 1]) Map.empty))
     = [\<lparr>e_symbol = ''X'', e_expiry = None, e_strike = 1050, e_side = CE,
         e_prev = 1, e_curr = 2, e_pct = 100, e_speed = - 80, e_volume = 0,
         e_lots = 0, e_strength = GOOD, e_type = OTM_BOMB\<rparr>]"
  by (simp add: tick_def surge_request_def surge_symbol_def surge_row_def surge_side_def
        quote_def deque_append_def surge_speed_def Let_def get_lot_size_def LOT_SIZES_def
        make_event_def tier_of_def py_round_def py_int_def rank_events_def sort_desc_def)

lemma py_round_lower:
  assumes "of_int m \<le> x * 10 ^ n"
  shows "of_int m / 10 ^ n \<le> py_round n x"
proof -
  have "m \<le> \<lfloor>x * 10 ^ n\<rfloor>" using assms by (simp add: le_floor_iff)
  then have "m \<le> \<lfloor>x * 10 ^ n\<rfloor> + 1" by simp
  with \<open>m \<le> \<lfloor>x * 10 ^ n\<rfloor>\<close> have "(of_int m :: rat) \<le> of_int \<lfloor>x * 10 ^ n\<rfloor>"
    and "(of_int m :: rat) \<le> of_int (\<lfloor>x * 10 ^ n\<rfloor> + 1)"
    by (simp_all only: of_int_le_iff)
  then show ?thesis
    unfolding py_round_def Let_def by (auto simp: divide_right_mono)
qed

lemma py_round_upper:
  assumes "x * 10 ^ n \<le> of_int m"
  shows "py_round n x \<le> of_int m / 10 ^ n"
proof (cases "x * 10 ^ n = of_int m")
  case True
  then show ?thesis unfolding py_round_def Let_def by simp
next
  case False
  with assms have "x * 10 ^ n < of_int m" by simp
  then have "\<lfloor>x * 10 ^ n\<rfloor> < m" by (simp add: floor_less_iff)
  then have "\<lfloor>x * 10 ^ n\<rfloor> + 1 \<le> m" "\<lfloor>x * 10 ^ n\<rfloor> \<le> m" by simp_all
  then have "(of_int (\<lfloor>x * 10 ^ n\<rfloor> + 1) :: rat) \<le> of_int m"
    and "(of_int \<lfloor>x * 10 ^ n\<rfloor> :: rat) \<le> of_int m"
    by (simp_all only: of_int_le_iff)
  then show ?thesis
    unfolding py_round_def Let_def by (auto simp: divide_right_mono)
qed

lemma nuclear_pct:
  assumes "e_strength (make_event s u k sd pv c pct sp v l) = NUCLEAR"
  shows "1000 \<le> e_pct (make_event s u k sd pv c pct sp v l)"
proof -
  from assms have "1000 \<le> pct"
    by (auto simp: make_event_def Let_def tier_of_def split: if_splits)
  then have "of_int 10000 \<le> pct * 10 ^ 1" by simp
  from py_round_lower[OF this] show ?thesis by (simp add: make_event_def Let_def)
qed

lemma non_nuclear_pct:
  assumes "e_strength (make_event s u k sd pv c pct sp v l) \<noteq> NUCLEAR"
  shows "e_pct (make_event s u k sd pv c pct sp v l) \<le> 1000"
proof -
  from assms have "pct < 1000"
    by (auto simp: make_event_def Let_def tier_of_def split: if_splits)
  then have "pct * 10 ^ 1 \<le> of_int 10000" by simp
  from py_round_upper[OF this] show ?thesis by (simp add: make_event_def Let_def)
qed

lemma scoreBomb_sum:
  "scoreBomb x = e_pct x + (if e_strength x = NUCLEAR then 5000 else 0)
                 + (if e_strength x = EXTREME then 2000 else 0)
                 + (if e_speed x > e_pct x * (3 / 2) then 1000 else 0)
                 + (if e_type x = INSTITUTIONAL_BOMB then 500 else 0)"
  by (simp add: scoreBomb_def Let_def)

lemma mset_sort_desc: "mset (sort_desc f xs) = mset xs"
  by (simp add: sort_desc_def)

lemma rank_events_top:
  "sorted_wrt (\<lambda>a b. scoreBomb b \<le> scoreBomb a) (rank_events out) \<and>
   length (rank_events out) = min 50 (length out) \<and>
   (\<exists>rest. mset (rank_events out @ rest) = mset out \<and>
      (\<forall>a\<in>set (rank_events out). \<forall>b\<in>set rest. scoreBomb b \<le> scoreBomb a))"
proof -
  let ?s = "sort_desc scoreBomb out"
  have s: "sorted_wrt (\<lambda>a b. scoreBomb b \<le> scoreBomb a) ?s" by (rule sorted_sort_desc)
  have len: "length ?s = length out" by (simp add: sort_desc_def)
  have split: "take 50 ?s @ drop 50 ?s = ?s" by simp
  from s have "sorted_wrt (\<lambda>a b. scoreBomb b \<le> scoreBomb a) (take 50 ?s @ drop 50 ?s)"
    by simp
  then have top: "sorted_wrt (\<lambda>a b. scoreBomb b \<le> scoreBomb a) (take 50 ?s)"
    and cut: "\<forall>a\<in>set (take 50 ?s). \<forall>b\<in>set (drop 50 ?s). scoreBomb b \<le> scoreBomb a"
    unfolding sorted_wrt_append by blast+
  have "mset (take 50 ?s @ drop 50 ?s) = mset out"
    unfolding split by (rule mset_sort_desc)
  with cut have "\<exists>rest. mset (rank_events out @ rest) = mset out \<and>
      (\<forall>a\<in>set (rank_events out). \<forall>b\<in>set rest. scoreBomb b \<le> scoreBomb a)"
    unfolding rank_events_def by blast
  moreover have "length (rank_events out) = min 50 (length out)"
    by (simp add: rank_events_def len min.commute)
  ultimately show ?thesis using top by (simp add: rank_events_def)
qed

text \<open>
  Claim C4. The score is \<^verbatim>\<open>pct\<close> plus 5000 for NUCLEAR, 2000 for EXTREME, 1000 when
  \<^verbatim>\<open>speed > pct * 1.5\<close> and 500 for INSTITUTIONAL\_BOMB. The returned list is in descending
  score order, has \<open>min 50 (length out)\<close> events, and together with some rest that scores no
  higher than any returned event it is a permutation of \<^verbatim>\<open>out\<close>. An event the detector
  builds with tier NUCLEAR scores strictly higher than one it builds with another tier.
\<close>

theorem surge_ranking:
  "scoreBomb x = e_pct x + (if e_strength x = NUCLEAR then 5000 else 0)
                 + (if e_strength x = EXTREME then 2000 else 0)
                 + (if e_speed x > e_pct x * (3 / 2) then 1000 else 0)
                 + (if e_type x = INSTITUTIONAL_BOMB then 500 else 0) \<and>
   sorted_wrt (\<lambda>a b. scoreBomb b \<le> scoreBomb a) (rank_events out) \<and>
   length (rank_events out) = min 50 (length out) \<and>
   (\<exists>rest. mset (rank_events out @ rest) = mset out \<and>
      (\<forall>a\<in>set (rank_events out). \<forall>b\<in>set rest. scoreBomb b \<le> scoreBomb a)) \<and>
   (e_strength (make_event s u k sd pv c pct sp v l) = NUCLEAR \<and>
    e_strength (make_event s' u' k' sd' pv' c' pct' sp' v' l') \<noteq> NUCLEAR \<longrightarrow>
      scoreBomb (make_event s' u' k' sd' pv' c' pct' sp' v' l')
        < scoreBomb (make_event s u k sd pv c pct sp v l))"
proof -
  have "scoreBomb (make_event s' u' k' sd' pv' c' pct' sp' v' l')
        < scoreBomb (make_event s u k sd pv c pct sp v l)"
    if n: "e_strength (make_event s u k sd pv c pct sp v l) = NUCLEAR"
      and m: "e_strength (make_event s' u' k' sd' pv' c' pct' sp' v' l') \<noteq> NUCLEAR"
  proof -
    have hi: "6000 \<le> scoreBomb (make_event s u k sd pv c pct sp v l)"
      using nuclear_pct[OF n] n unfolding scoreBomb_sum by simp
    have lo: "scoreBomb (make_event s' u' k' sd' pv' c' pct' sp' v' l') \<le> 4500"
      using non_nuclear_pct[OF m] m unfolding scoreBomb_sum by simp
    from hi lo show ?thesis by simp
  qed
  then show ?thesis using scoreBomb_sum[of x] rank_events_top[of out] by blast
qed


text \<open>
  A NUCLEAR event of 1100 percent scores 6100; an EXTREME institutional one of 999 percent
  with high speed scores 4499 and is ranked after it.
\<close>

theorem surge_ranking_witness:
  "e_strength (make_event ''X'' None 1050 CE 1 12 1100 0 0 50) = NUCLEAR \<and>
   e_strength (make_event ''Y'' None 1050 CE 1 (1099 / 100) 999 2000 1000 50) \<noteq> NUCLEAR \<and>
   scoreBomb (make_event ''X'' None 1050 CE 1 12 1100 0 0 50) = 6100 \<and>
   scoreBomb (make_event ''Y'' None 1050 CE 1 (1099 / 100) 999 2000 1000 50) = 4499 \<and>
   rank_events [make_event ''Y'' None 1050 CE 1 (1099 / 100) 999 2000 1000 50,
                make_event ''X'' None 1050 CE 1 12 1100 0 0 50]
     = [make_event ''X'' None 1050 CE 1 12 1100 0 0 50,
        make_event ''Y'' None 1050 CE 1 (1099 / 100) 999 2000 1000 50]"
  using surge_ranking
    [of "make_event ''X'' None 1050 CE 1 12 1100 0 0 50"
        "[make_event ''Y'' None 1050 CE 1 (1099 / 100) 999 2000 1000 50,
          make_event ''X'' None 1050 CE 1 12 1100 0 0 50]"
        "''X''" None 1050 CE 1 12 1100 0 0 50 "''Y''" None 1050 CE 1 "1099 / 100" 999 2000 1000 50]
  by (simp add: rank_events_def sort_desc_def scoreBomb_def make_event_def tier_of_def
      py_round_def py_int_def Let_def)

section \<open>Properties of the UpstreamClient\<close>

lemma prime_never_raises:
  "network_only env \<Longrightarrow> prime (warm env i) = (None, warm_up (warm env i))"
proof -
  assume "network_only env"
  then have "net_error (fst (warm env i))" "net_error (snd (warm env i))"
    by (simp_all add: network_only_def)
  then show ?thesis
    by (cases "fst (warm env i)"; cases "snd (warm env i)")
       (simp_all add: prime_def warm_up_def)
qed

lemma attempts_fail_step:
  assumes "network_only env" "succeeded (main env i) = None"
  shows "attempts (Suc n) i url env tr = attempts n (Suc i) url env (tr @ failed_attempt url env i)"
proof -
  have ne: "net_error (main env i)" using assms(1) by (simp add: network_only_def)
  note p = prime_never_raises[OF assms(1), of i]
  show ?thesis
  proof (cases "main env i")
    case (Inl e)
    with ne show ?thesis by (simp add: p failed_attempt_def Let_def)
  next
    case (Inr r)
    show ?thesis
    proof (cases "body r")
      case bl: (Inl e)
      with Inr ne show ?thesis by (simp add: p failed_attempt_def Let_def)
    next
      case br: (Inr doc)
      with Inr assms(2) show ?thesis
        by (auto simp: p failed_attempt_def Let_def split: if_splits)
    qed
  qed
qed

lemma attempts_ok_step:
  assumes "succeeded (main env i) = Some doc"
  shows "attempts (Suc n) i url env tr = (Inr doc, tr @ [Get url 12])"
  using assms
  by (cases "main env i") (auto simp: Let_def split: if_splits sum.splits)

lemma attempts_fail_run:
  assumes "network_only env" "\<forall>j<k. succeeded (main env (i + j)) = None"
  shows "attempts (k + n) i url env tr
         = attempts n (i + k) url env (tr @ concat (map (failed_attempt url env) [i..<i + k]))"
  using assms(2)
proof (induction k arbitrary: i tr)
  case 0
  then show ?case by simp
next
  case (Suc k)
  from Suc.prems have first: "succeeded (main env i) = None" by force
  from Suc.prems have rest: "\<forall>j<k. succeeded (main env (Suc i + j)) = None" by force
  have "attempts (Suc k + n) i url env tr
        = attempts (k + n) (Suc i) url env (tr @ failed_attempt url env i)"
    using attempts_fail_step[OF assms(1) first] by simp
  also have "\<dots> = attempts n (Suc i + k) url env
       ((tr @ failed_attempt url env i) @ concat (map (failed_attempt url env) [Suc i..<Suc i + k]))"
    by (rule Suc.IH[OF rest])
  finally have run: "attempts (Suc k + n) i url env tr = attempts n (Suc i + k) url env
       ((tr @ failed_attempt url env i) @ concat (map (failed_attempt url env) [Suc i..<Suc i + k]))" .
  have "[i..<i + Suc k] = i # [Suc i..<Suc i + k]"
    by (simp add: upt_conv_Cons)
  with run show ?case by simp
qed


lemma count_failed_attempts:
  "length (filter (\<lambda>a. a = Get url 12) (concat (map (failed_attempt url env) xs))) = length xs"
  by (induction xs) (simp_all add: failed_attempt_def warm_up_def split: sum.splits)

lemma get_json_success:
  assumes "network_only env" "k < 3" "\<forall>j<k. succeeded (main env j) = None"
    "succeeded (main env k) = Some doc"
  shows "get_json url env
         = (Inr doc, concat (map (failed_attempt url env) [0..<k]) @ [Get url 12])"
proof -
  from assms(2) obtain m where m: "3 - k = Suc m" by (cases "3 - k") auto
  from assms(2) have k3: "k + (3 - k) = 3" by simp
  from assms(3) have "\<forall>j<k. succeeded (main env (0 + j)) = None" by simp
  from attempts_fail_run[OF assms(1) this, of "3 - k" url "[]"]
  have "attempts 3 0 url env []
        = attempts (3 - k) k url env (concat (map (failed_attempt url env) [0..<k]))"
    unfolding k3 by simp
  also have "\<dots> = (Inr doc, concat (map (failed_attempt url env) [0..<k]) @ [Get url 12])"
    unfolding m by (rule attempts_ok_step[OF assms(4)])
  finally show ?thesis by (simp only: get_json_def)
qed

lemma get_json_exhausted:
  assumes "network_only env" "\<forall>j<3. succeeded (main env j) = None"
  shows "get_json url env = (Inl RuntimeError, concat (map (failed_attempt url env) [0..<3]))"
proof -
  from assms(2) have "\<forall>j<3. succeeded (main env (0 + j)) = None" by simp
  from attempts_fail_run[OF assms(1) this, of 0 url "[]"]
  have "attempts 3 0 url env []
        = attempts 0 3 url env (concat (map (failed_attempt url env) [0..<3]))"
    by simp
  then show ?thesis by (simp only: get_json_def attempts.simps)
qed

text \<open>
  Claim C9. On a network whose failures are all of the class \<^verbatim>\<open>RequestException\<close>:
  when attempt \<open>k < 3\<close> is the first to get status 200 with a parsed body, \<^verbatim>\<open>get_json\<close> returns
  that body after \<open>k\<close> failed attempts, each being the request, the re-priming when the status
  was 401 or 403 or the attempt raised, and the delay of 0.5 seconds; when none of the three
  attempts succeeds it raises \<^verbatim>\<open>RuntimeError\<close> after three failed attempts. In every run it
  makes at most 3 requests for the URL, and the re-priming never raises.
\<close>

theorem get_json_contract:
  assumes "network_only env"
  shows
  "(\<forall>k doc. k < 3 \<and> (\<forall>j<k. succeeded (main env j) = None) \<and> succeeded (main env k) = Some doc \<longrightarrow>
       get_json url env
       = (Inr doc, concat (map (failed_attempt url env) [0..<k]) @ [Get url 12])) \<and>
   ((\<forall>j<3. succeeded (main env j) = None) \<longrightarrow>
       get_json url env = (Inl RuntimeError, concat (map (failed_attempt url env) [0..<3]))) \<and>
   length (filter (\<lambda>a. a = Get url 12) (snd (get_json url env))) \<le> 3 \<and>
   (\<forall>i. prime (warm env i) = (None, warm_up (warm env i)))"
proof (intro conjI allI impI)
  fix k doc
  assume "k < 3 \<and> (\<forall>j<k. succeeded (main env j) = None) \<and> succeeded (main env k) = Some doc"
  then show "get_json url env
       = (Inr doc, concat (map (failed_attempt url env) [0..<k]) @ [Get url 12])"
    using get_json_success[OF assms] by blast
next
  assume "\<forall>j<3. succeeded (main env j) = None"
  then show "get_json url env = (Inl RuntimeError, concat (map (failed_attempt url env) [0..<3]))"
    by (rule get_json_exhausted[OF assms])
next
  show "length (filter (\<lambda>a. a = Get url 12) (snd (get_json url env))) \<le> 3"
  proof (cases "\<forall>j<3. succeeded (main env j) = None")
    case True
    from get_json_exhausted[OF assms True, of url] show ?thesis
      by (simp only: snd_conv count_failed_attempts) simp
  next
    case False
    then have ex: "\<exists>j. j < 3 \<and> succeeded (main env j) \<noteq> None" by blast
    define k where "k = (LEAST j. j < 3 \<and> succeeded (main env j) \<noteq> None)"
    from LeastI_ex[OF ex] have k: "k < 3" "succeeded (main env k) \<noteq> None"
      unfolding k_def by blast+
    have before: "\<forall>j<k. succeeded (main env j) = None"
    proof (intro allI impI)
      fix j assume "j < k"
      then have "\<not> (j < 3 \<and> succeeded (main env j) \<noteq> None)"
        unfolding k_def by (rule not_less_Least)
      with \<open>j < k\<close> k(1) show "succeeded (main env j) = None" by simp
    qed
    from k(2) obtain doc where "succeeded (main env k) = Some doc" by blast
    from get_json_success[OF assms k(1) before this, of url] k(1) show ?thesis
      by (simp add: count_failed_attempts)
  qed
next
  fix i
  show "prime (warm env i) = (None, warm_up (warm env i))"
    by (rule prime_never_raises[OF assms])
qed


text \<open>
  A network that answers 403, then raises, then serves a document; and one that is down.
\<close>

theorem get_json_contract_witness:
  "network_only flaky_net \<and>
   get_json ''u'' flaky_net
     = (Inr (JObj []),
        [Get ''u'' 12, Get BASE 10, Get (BASE @ ''/option-chain'') 10, Sleep (1 / 2),
         Get ''u'' 12, Get BASE 10, Sleep (1 / 2),
         Get ''u'' 12]) \<and>
   network_only down_net \<and>
   get_json ''u'' down_net
     = (Inl RuntimeError,
        [Get ''u'' 12, Sleep (1 / 2), Get ''u'' 12, Sleep (1 / 2), Get ''u'' 12, Sleep (1 / 2)])"
proof -
  have n1: "network_only flaky_net" by (simp add: network_only_def flaky_net_def)
  have n2: "network_only down_net" by (simp add: network_only_def down_net_def)
  have u: "[0..<2] = [0, 1]" "[0..<3] = [0, 1, 2]" by (simp_all add: upt_rec)
  have s1: "(2::nat) < 3 \<and> (\<forall>j<2. succeeded (main flaky_net j) = None) \<and>
            succeeded (main flaky_net 2) = Some (JObj [])"
    by (auto simp: flaky_net_def)
  have s2: "\<forall>j<3. succeeded (main down_net j) = None"
    by (simp add: down_net_def)
  from get_json_contract[OF n1, of "''u''"] s1
  have "get_json ''u'' flaky_net
        = (Inr (JObj []), concat (map (failed_attempt ''u'' flaky_net) [0..<2]) @ [Get ''u'' 12])"
    by blast
  then have r1: "get_json ''u'' flaky_net
     = (Inr (JObj []),
        [Get ''u'' 12, Get BASE 10, Get (BASE @ ''/option-chain'') 10, Sleep (1 / 2),
         Get ''u'' 12, Get BASE 10, Sleep (1 / 2),
         Get ''u'' 12])"
    unfolding u by (simp add: failed_attempt_def warm_up_def flaky_net_def)
  from get_json_contract[OF n2, of "''u''"] s2
  have "get_json ''u'' down_net
        = (Inl RuntimeError, concat (map (failed_attempt ''u'' down_net) [0..<3]))"
    by blast
  then have r2: "get_json ''u'' down_net
     = (Inl RuntimeError,
        [Get ''u'' 12, Sleep (1 / 2), Get ''u'' 12, Sleep (1 / 2), Get ''u'' 12, Sleep (1 / 2)])"
    unfolding u by (simp add: failed_attempt_def warm_up_def down_net_def)
  from n1 r1 n2 r2 show ?thesis by blast
qed

section \<open>Properties of the RealtimeSession loop\<close>

text \<open>While every scan and emit succeeds the loop never sleeps, whatever the interval.\<close>

lemma bg_loop_no_pause_on_success:
  "\<forall>t\<in>set script. (\<exists>out. scanned t = Inr out) \<and> emit_ok t \<Longrightarrow>
     Pause n \<notin> set (bg_loop sid interval script ts)"
  by (induction script arbitrary: ts) (auto split: sum.splits)

text \<open>A loop that finds the flag cleared, or the session gone, does nothing more.\<close>

lemma bg_loop_stops:
  "ts sid = Some False \<or> ts sid = None \<Longrightarrow> bg_loop sid interval script ts = []"
  by (cases script) auto

text \<open>
  Claim C5. A session started with the default interval of 15 seconds whose scans succeed
  publishes and scans again at once: there is no sleep between \<open>Publish 1\<close> and the next
  scan. The stop that arrives during the second turn ends the loop at its next check, before
  a third result. The sleep of \<open>max 1 interval\<close> seconds happens only after a scan that raised.
\<close>

theorem bg_loop_publishes_without_sleeping:
  "bg_loop ''c1'' (interval_of None)
     [\<lparr>scanned = Inr (1::nat), emit_ok = True, arrivals = []\<rparr>,
      \<lparr>scanned = Inr 2, emit_ok = True, arrivals = [Stop_realtime]\<rparr>,
      \<lparr>scanned = Inr 3, emit_ok = True, arrivals = []\<rparr>]
     (handle ''c1'' Start_realtime (handle ''c1'' Connect Map.empty))
   = [Scan, Publish 1, Scan, Publish 2] \<and>
   bg_loop ''c1'' (interval_of None)
     [\<lparr>scanned = Inl RuntimeError, emit_ok = True, arrivals = []\<rparr>,
      \<lparr>scanned = Inr (2::nat), emit_ok = True, arrivals = []\<rparr>]
     (handle ''c1'' Start_realtime (handle ''c1'' Connect Map.empty))
   = [Scan, Pause 15, Scan, Publish 2]"
  by (simp add: interval_of_def)

end
